theory Spec2Isabelle
  imports Main "HOL-Library.Word"
begin

unbundle bit_operations_syntax

section \<open>Data model of the shadow-framebuffer refresh code (cir\_shadow.c)\<close>

text \<open>
  The routines of \<^verbatim>\<open>cir_shadow.c\<close> read the driver's shadow buffer and store into the
  frame buffer through raw pointers.  Both buffers are modelled as byte memories indexed by
  the byte offset from their base pointer (\<^verbatim>\<open>ShadowPtr\<close>, \<^verbatim>\<open>FbBase\<close>); an offset may
  be negative or lie beyond the buffer, exactly as a C pointer may.  The two buffers are
  distinct objects (the shadow is allocated by the driver, the frame buffer is the mapped
  video memory), so a store into the frame buffer never changes what a later load from the
  shadow returns.

  The fields of \<^verbatim>\<open>ScrnInfoRec\<close>, \<^verbatim>\<open>CirRec\<close> and \<^verbatim>\<open>BoxRec\<close> that the routines use are
  kept under their C names; \<^verbatim>\<open>rotate\<close> is spelt \<open>rotateC\<close> because \<open>rotate\<close> is a list
  function of HOL.  The pointer transform is modelled on 32-bit machine words.
\<close>

type_synonym mem = "int \<Rightarrow> 8 word"

record ScrnInfoRec =
  bitsPerPixel :: int
  displayWidth :: int
  virtualX :: int
  virtualY :: int

record ScreenRec =
  pScreen_width :: "32 word"
  pScreen_height :: "32 word"

record CirRec =
  rotateC :: int
  ShadowPitch :: int
  ShadowPtr :: mem

record BoxRec =
  x1 :: int
  y1 :: int
  x2 :: int
  y2 :: int

section \<open>C \<^verbatim>\<open>int\<close> arithmetic in the blit routines\<close>

text \<open>
  The pitches, the screen dimensions and the locals of the blit routines are C
  \<^verbatim>\<open>int\<close>s, 32 bits wide.  The value of an \<^verbatim>\<open>int\<close> multiplication, subtraction or
  negation is the mathematical result wrapped to 32-bit two's complement, \<open>i32\<close>: this is
  what the compiled routines compute (C itself gives no meaning to an \<^verbatim>\<open>int\<close>
  operation whose result leaves the range).  So \<^verbatim>\<open>pbox->x1 * dstPitch\<close> is
  \<open>i32 (x1 pbox * dstPitch)\<close>, and the offset it yields is the intended one only as long
  as the product stays inside the range of \<^verbatim>\<open>int\<close>, \<open>in_int\<close>.

  Two kinds of arithmetic are exact.  The coordinates of a box are \<^verbatim>\<open>short\<close>s, promoted
  to \<^verbatim>\<open>int\<close>: the difference of two coordinates, a coordinate plus or minus a small
  constant, and the masked and shifted values of these cannot leave the range of
  \<^verbatim>\<open>int\<close>.  And an offset added to one of the two base pointers is pointer arithmetic,
  which is wider than \<^verbatim>\<open>int\<close> on the 64-bit machines the driver is built for: in
  \<^verbatim>\<open>FbBase + (x1 * dstPitch) + virtualX - y2\<close> the product is an \<^verbatim>\<open>int\<close> and wraps,
  the two additions and the subtraction are done on the pointer.

  The innermost loop of each engine multiplies the source pitch by 2, 3 and 4 to reach the
  rows of one packing group.  These products are taken exactly: a loop that runs at all
  reads a whole group of rows, and the statements about whole boxes bound the offset of the
  last row read by \<open>2^31\<close>, which bounds the products as well.
\<close>

definition i32 :: "int \<Rightarrow> int" where
  "i32 x = (x + 2 ^ 31) mod 2 ^ 32 - 2 ^ 31"

definition in_int :: "int \<Rightarrow> bool" where
  "in_int x \<longleftrightarrow> - (2 ^ 31) \<le> x \<and> x < 2 ^ 31"

section \<open>cirPointerMoved\<close>

text \<open>
  \<^verbatim>\<open>cirPointerMoved\<close> computes \<^verbatim>\<open>newX\<close>, \<^verbatim>\<open>newY\<close> and calls the wrapped handler
  \<^verbatim>\<open>pCir->PointerMoved\<close> once; the handler is a parameter of the model and the result of
  the model is the result of that one call.  C \<^verbatim>\<open>int\<close> arithmetic is 32-bit word
  arithmetic here.
\<close>

definition cirPointerMoved ::
  "ScreenRec \<Rightarrow> CirRec \<Rightarrow> (32 word \<Rightarrow> 32 word \<Rightarrow> 'a) \<Rightarrow> 32 word \<Rightarrow> 32 word \<Rightarrow> 'a" where
  "cirPointerMoved pScreen pCir PointerMoved x y =
     (if rotateC pCir = 1
      then (let newX = pScreen_height pScreen - y - 1; newY = x in PointerMoved newX newY)
      else (let newX = y; newY = pScreen_width pScreen - x - 1 in PointerMoved newX newY))"

section \<open>Memory accesses and the counted loop\<close>

text \<open>
  A routine is modelled by the sequence of byte accesses it performs, in program order:
  \<open>Rd a\<close> is a load from the shadow buffer at byte offset \<open>a\<close>, \<open>Wr a v\<close> a store of the
  byte \<open>v\<close> into the frame buffer at byte offset \<open>a\<close>.  The frame buffer after the call is
  the frame buffer before it with the stores applied in order (\<open>run\<close>).
\<close>

datatype access = Rd int | Wr int "8 word"

fun writes :: "access list \<Rightarrow> (int \<times> 8 word) list" where
  "writes [] = []"
| "writes (Rd a # t) = writes t"
| "writes (Wr a v # t) = (a, v) # writes t"

fun reads :: "access list \<Rightarrow> int list" where
  "reads [] = []"
| "reads (Rd a # t) = a # reads t"
| "reads (Wr a v # t) = reads t"

fun run :: "access list \<Rightarrow> mem \<Rightarrow> mem" where
  "run [] fb = fb"
| "run (Rd a # t) fb = run t fb"
| "run (Wr a v # t) fb = run t (fb(a := v))"

text \<open>
  The stores and loads are little-endian, the byte order of the machines the packing
  expressions of the routines are written for: a \<^verbatim>\<open>CARD32\<close> store at byte offset \<open>a\<close>
  writes the low byte at \<open>a\<close> and the high byte at \<open>a + 3\<close>.  \<open>ld16\<close> and \<open>ld32\<close> take the
  pointer in units of the pointed-to type, as \<^verbatim>\<open>CARD16 *\<close> and \<^verbatim>\<open>CARD32 *\<close>
  arithmetic does.
\<close>

definition store32 :: "int \<Rightarrow> 32 word \<Rightarrow> access list" where
  "store32 a v =
     [Wr a (ucast v), Wr (a + 1) (ucast (drop_bit 8 v)),
      Wr (a + 2) (ucast (drop_bit 16 v)), Wr (a + 3) (ucast (drop_bit 24 v))]"

definition ld16 :: "mem \<Rightarrow> int \<Rightarrow> 16 word" where
  "ld16 m p = ucast (m (2 * p)) OR push_bit 8 (ucast (m (2 * p + 1)))"

definition rd16 :: "int \<Rightarrow> access list" where
  "rd16 p = [Rd (2 * p), Rd (2 * p + 1)]"

definition ld32 :: "mem \<Rightarrow> int \<Rightarrow> 32 word" where
  "ld32 m p = ucast (m (4 * p)) OR push_bit 8 (ucast (m (4 * p + 1)))
     OR push_bit 16 (ucast (m (4 * p + 2))) OR push_bit 24 (ucast (m (4 * p + 3)))"

definition rd32 :: "int \<Rightarrow> access list" where
  "rd32 p = [Rd (4 * p), Rd (4 * p + 1), Rd (4 * p + 2), Rd (4 * p + 3)]"

text \<open>
  \<^verbatim>\<open>memcpy(dst, src, n)\<close> copies \<open>n\<close> bytes in ascending order.  Its length parameter is a
  \<^verbatim>\<open>size_t\<close>: a negative \<^verbatim>\<open>int\<close> becomes a length beyond any object, and the call has no
  defined outcome (\<open>None\<close>).
\<close>

definition memcpy_c :: "mem \<Rightarrow> int \<Rightarrow> int \<Rightarrow> int \<Rightarrow> access list option" where
  "memcpy_c m dst src n =
     (if n < 0 then None
      else Some (concat (map (\<lambda>b. [Rd (src + int b), Wr (dst + int b) (m (src + int b))])
                             [0..<nat n])))"

text \<open>
  \<^verbatim>\<open>while (n--) { body; step }\<close> on a counter \<open>n\<close> and loop variables \<open>s\<close>.  The loop
  stops when the counter is 0 on entry.  A negative counter never reaches 0 by counting down
  inside the range of \<^verbatim>\<open>int\<close>: the loop does not return normally and the model
  gives \<open>None\<close>, as it does when the body has no outcome.
\<close>

function while_dec ::
  "int \<Rightarrow> ('s \<Rightarrow> access list option) \<Rightarrow> ('s \<Rightarrow> 's) \<Rightarrow> 's \<Rightarrow> access list option" where
  "while_dec n body step s =
     (if n < 0 then None
      else if n = 0 then Some []
      else (case body s of
              None \<Rightarrow> None
            | Some t \<Rightarrow> map_option ((@) t) (while_dec (n - 1) body step (step s))))"
  by pat_completeness auto
termination
  by (relation "measure (\<lambda>(n, body, step, s). nat n)") auto

declare while_dec.simps [simp del]

text \<open>
  The outer loop of every refresh routine, \<^verbatim>\<open>while (num--) { ...; pbox++; }\<close>, walks the
  \<open>num\<close> boxes of the array in order; the array is a list and \<open>num\<close> its length.
\<close>

fun box_loop :: "(BoxRec \<Rightarrow> access list option) \<Rightarrow> BoxRec list \<Rightarrow> access list option" where
  "box_loop body [] = Some []"
| "box_loop body (pbox # rest) =
     (case body pbox of
        None \<Rightarrow> None
      | Some t \<Rightarrow> map_option ((@) t) (box_loop body rest))"

section \<open>cirRefreshArea\<close>

text \<open>
  \<^verbatim>\<open>BitmapBytePad\<close> is a macro of the X server headers (\<^verbatim>\<open>servermd.h\<close>); it is the
  parameter \<open>BitmapBytePad\<close> of the two routines that use it.
\<close>

definition cirRefreshArea_box ::
  "(int \<Rightarrow> int) \<Rightarrow> ScrnInfoRec \<Rightarrow> CirRec \<Rightarrow> BoxRec \<Rightarrow> access list option" where
  "cirRefreshArea_box BitmapBytePad pScrn pCir pbox =
     (let Bpp = drop_bit 3 (bitsPerPixel pScrn);
          FBPitch = BitmapBytePad (i32 (displayWidth pScrn * bitsPerPixel pScrn));
          width = i32 ((x2 pbox - x1 pbox) * Bpp);
          height = y2 pbox - y1 pbox;
          src = i32 (y1 pbox * ShadowPitch pCir) + i32 (x1 pbox * Bpp);
          dst = i32 (y1 pbox * FBPitch) + i32 (x1 pbox * Bpp)
      in while_dec height
           (\<lambda>(dst, src). memcpy_c (ShadowPtr pCir) dst src width)
           (\<lambda>(dst, src). (dst + FBPitch, src + ShadowPitch pCir))
           (dst, src))"

definition cirRefreshArea ::
  "(int \<Rightarrow> int) \<Rightarrow> ScrnInfoRec \<Rightarrow> CirRec \<Rightarrow> BoxRec list \<Rightarrow> access list option" where
  "cirRefreshArea BitmapBytePad pScrn pCir pbox =
     box_loop (cirRefreshArea_box BitmapBytePad pScrn pCir) pbox"

section \<open>cirRefreshArea8\<close>

text \<open>
  In the rotating routines \<open>y1'\<close> and \<open>y2'\<close> are the locals \<^verbatim>\<open>y1\<close> and \<^verbatim>\<open>y2\<close> of the C
  code.  \<^verbatim>\<open>&\<close>, \<^verbatim>\<open>~\<close> and \<^verbatim>\<open>>>\<close> on \<^verbatim>\<open>int\<close> are two's-complement operations
  (\<^verbatim>\<open>>>\<close> the arithmetic shift), which \<open>AND\<close>, \<open>NOT\<close> and \<open>drop_bit\<close> are on
  integers.  Pointers are offsets from \<^verbatim>\<open>ShadowPtr\<close> and \<^verbatim>\<open>FbBase\<close> in units of the
  pointed-to type; a \<^verbatim>\<open>CARD32 *dst\<close> obtained by a cast is kept as a byte offset.
  For each routine, \<open>_store\<close> is the body of the innermost loop without its pointer
  updates (the loads of one packing group and the stores they feed), \<open>_count\<close> is the
  loop \<^verbatim>\<open>while (count--)\<close> around it, and \<open>_box\<close> is one iteration of the loop over
  the boxes.
\<close>

definition cirRefreshArea8_store :: "mem \<Rightarrow> int \<Rightarrow> int \<Rightarrow> int \<Rightarrow> access list" where
  "cirRefreshArea8_store m srcPitch src dst =
     [Rd src, Rd (src + srcPitch), Rd (src + srcPitch * 2), Rd (src + srcPitch * 3)]
     @ store32 dst
         (ucast (m src) OR push_bit 8 (ucast (m (src + srcPitch)))
          OR push_bit 16 (ucast (m (src + srcPitch * 2)))
          OR push_bit 24 (ucast (m (src + srcPitch * 3))))"

definition cirRefreshArea8_count ::
  "mem \<Rightarrow> int \<Rightarrow> int \<Rightarrow> int \<Rightarrow> int \<Rightarrow> access list option" where
  "cirRefreshArea8_count m srcPitch count src dst =
     while_dec count
       (\<lambda>(src, dst). Some (cirRefreshArea8_store m srcPitch src dst))
       (\<lambda>(src, dst). (src + srcPitch * 4, dst + 4))
       (src, dst)"

definition cirRefreshArea8_box :: "ScrnInfoRec \<Rightarrow> CirRec \<Rightarrow> BoxRec \<Rightarrow> access list option" where
  "cirRefreshArea8_box pScrn pCir pbox =
     (let dstPitch = displayWidth pScrn;
          srcPitch = i32 (i32 (- rotateC pCir) * ShadowPitch pCir);
          width = x2 pbox - x1 pbox;
          y1' = y1 pbox AND NOT 3;
          y2' = (y2 pbox + 3) AND NOT 3;
          height = drop_bit 2 (y2' - y1');
          dstPtr = (if rotateC pCir = 1
                    then i32 (x1 pbox * dstPitch) + virtualX pScrn - y2'
                    else i32 (i32 (virtualY pScrn - x2 pbox) * dstPitch) + y1');
          srcPtr = (if rotateC pCir = 1
                    then i32 ((1 - y2') * srcPitch) + x1 pbox
                    else i32 (y1' * srcPitch) + x2 pbox - 1)
      in while_dec width
           (\<lambda>(srcPtr, dstPtr). cirRefreshArea8_count (ShadowPtr pCir) srcPitch height srcPtr dstPtr)
           (\<lambda>(srcPtr, dstPtr). (srcPtr + rotateC pCir, dstPtr + dstPitch))
           (srcPtr, dstPtr))"

definition cirRefreshArea8 :: "ScrnInfoRec \<Rightarrow> CirRec \<Rightarrow> BoxRec list \<Rightarrow> access list option" where
  "cirRefreshArea8 pScrn pCir pbox = box_loop (cirRefreshArea8_box pScrn pCir) pbox"

section \<open>cirRefreshArea16\<close>

text \<open>
  \<^verbatim>\<open>-pCir->rotate * pCir->ShadowPitch >> 1\<close> shifts the product: the unary minus and the
  multiplication bind tighter than the shift.  The shift is done on the wrapped product.
\<close>

definition cirRefreshArea16_store :: "mem \<Rightarrow> int \<Rightarrow> int \<Rightarrow> int \<Rightarrow> access list" where
  "cirRefreshArea16_store m srcPitch src dst =
     rd16 src @ rd16 (src + srcPitch)
     @ store32 dst (ucast (ld16 m src) OR push_bit 16 (ucast (ld16 m (src + srcPitch))))"

definition cirRefreshArea16_count ::
  "mem \<Rightarrow> int \<Rightarrow> int \<Rightarrow> int \<Rightarrow> int \<Rightarrow> access list option" where
  "cirRefreshArea16_count m srcPitch count src dst =
     while_dec count
       (\<lambda>(src, dst). Some (cirRefreshArea16_store m srcPitch src dst))
       (\<lambda>(src, dst). (src + srcPitch * 2, dst + 4))
       (src, dst)"

definition cirRefreshArea16_box :: "ScrnInfoRec \<Rightarrow> CirRec \<Rightarrow> BoxRec \<Rightarrow> access list option" where
  "cirRefreshArea16_box pScrn pCir pbox =
     (let dstPitch = displayWidth pScrn;
          srcPitch = drop_bit 1 (i32 (i32 (- rotateC pCir) * ShadowPitch pCir));
          width = x2 pbox - x1 pbox;
          y1' = y1 pbox AND NOT 1;
          y2' = (y2 pbox + 1) AND NOT 1;
          height = drop_bit 1 (y2' - y1');
          dstPtr = (if rotateC pCir = 1
                    then i32 (x1 pbox * dstPitch) + virtualX pScrn - y2'
                    else i32 (i32 (virtualY pScrn - x2 pbox) * dstPitch) + y1');
          srcPtr = (if rotateC pCir = 1
                    then i32 ((1 - y2') * srcPitch) + x1 pbox
                    else i32 (y1' * srcPitch) + x2 pbox - 1)
      in while_dec width
           (\<lambda>(srcPtr, dstPtr).
              cirRefreshArea16_count (ShadowPtr pCir) srcPitch height srcPtr (2 * dstPtr))
           (\<lambda>(srcPtr, dstPtr). (srcPtr + rotateC pCir, dstPtr + dstPitch))
           (srcPtr, dstPtr))"

definition cirRefreshArea16 :: "ScrnInfoRec \<Rightarrow> CirRec \<Rightarrow> BoxRec list \<Rightarrow> access list option" where
  "cirRefreshArea16 pScrn pCir pbox = box_loop (cirRefreshArea16_box pScrn pCir) pbox"

section \<open>cirRefreshArea24\<close>

definition cirRefreshArea24_store :: "mem \<Rightarrow> int \<Rightarrow> int \<Rightarrow> int \<Rightarrow> access list" where
  "cirRefreshArea24_store m srcPitch src dst =
     [Rd src, Rd (src + 1), Rd (src + 2), Rd (src + srcPitch)]
     @ store32 dst
         (ucast (m src) OR push_bit 8 (ucast (m (src + 1)))
          OR push_bit 16 (ucast (m (src + 2)))
          OR push_bit 24 (ucast (m (src + srcPitch))))
     @ [Rd (src + (srcPitch + 1)), Rd (src + (srcPitch + 2)), Rd (src + srcPitch * 2),
        Rd (src + (srcPitch * 2 + 1))]
     @ store32 (dst + 4)
         (ucast (m (src + (srcPitch + 1))) OR push_bit 8 (ucast (m (src + (srcPitch + 2))))
          OR push_bit 16 (ucast (m (src + srcPitch * 2)))
          OR push_bit 24 (ucast (m (src + (srcPitch * 2 + 1)))))
     @ [Rd (src + (srcPitch * 2 + 2)), Rd (src + srcPitch * 3),
        Rd (src + (srcPitch * 3 + 1)), Rd (src + (srcPitch * 3 + 2))]
     @ store32 (dst + 8)
         (ucast (m (src + (srcPitch * 2 + 2))) OR push_bit 8 (ucast (m (src + srcPitch * 3)))
          OR push_bit 16 (ucast (m (src + (srcPitch * 3 + 1))))
          OR push_bit 24 (ucast (m (src + (srcPitch * 3 + 2)))))"

definition cirRefreshArea24_count ::
  "mem \<Rightarrow> int \<Rightarrow> int \<Rightarrow> int \<Rightarrow> int \<Rightarrow> access list option" where
  "cirRefreshArea24_count m srcPitch count src dst =
     while_dec count
       (\<lambda>(src, dst). Some (cirRefreshArea24_store m srcPitch src dst))
       (\<lambda>(src, dst). (src + srcPitch * 4, dst + 12))
       (src, dst)"

definition cirRefreshArea24_box ::
  "(int \<Rightarrow> int) \<Rightarrow> ScrnInfoRec \<Rightarrow> CirRec \<Rightarrow> BoxRec \<Rightarrow> access list option" where
  "cirRefreshArea24_box BitmapBytePad pScrn pCir pbox =
     (let dstPitch = BitmapBytePad (i32 (displayWidth pScrn * 24));
          srcPitch = i32 (i32 (- rotateC pCir) * ShadowPitch pCir);
          width = x2 pbox - x1 pbox;
          y1' = y1 pbox AND NOT 3;
          y2' = (y2 pbox + 3) AND NOT 3;
          height = drop_bit 2 (y2' - y1');
          dstPtr = (if rotateC pCir = 1
                    then i32 (x1 pbox * dstPitch) + i32 (i32 (virtualX pScrn - y2') * 3)
                    else i32 (i32 (virtualY pScrn - x2 pbox) * dstPitch) + i32 (y1' * 3));
          srcPtr = (if rotateC pCir = 1
                    then i32 ((1 - y2') * srcPitch) + i32 (x1 pbox * 3)
                    else i32 (y1' * srcPitch) + i32 (x2 pbox * 3) - 3)
      in while_dec width
           (\<lambda>(srcPtr, dstPtr). cirRefreshArea24_count (ShadowPtr pCir) srcPitch height srcPtr dstPtr)
           (\<lambda>(srcPtr, dstPtr). (srcPtr + i32 (rotateC pCir * 3), dstPtr + dstPitch))
           (srcPtr, dstPtr))"

definition cirRefreshArea24 ::
  "(int \<Rightarrow> int) \<Rightarrow> ScrnInfoRec \<Rightarrow> CirRec \<Rightarrow> BoxRec list \<Rightarrow> access list option" where
  "cirRefreshArea24 BitmapBytePad pScrn pCir pbox =
     box_loop (cirRefreshArea24_box BitmapBytePad pScrn pCir) pbox"

section \<open>cirRefreshArea32\<close>

definition cirRefreshArea32_store :: "mem \<Rightarrow> int \<Rightarrow> int \<Rightarrow> access list" where
  "cirRefreshArea32_store m src dst = rd32 src @ store32 (4 * dst) (ld32 m src)"

definition cirRefreshArea32_count ::
  "mem \<Rightarrow> int \<Rightarrow> int \<Rightarrow> int \<Rightarrow> int \<Rightarrow> access list option" where
  "cirRefreshArea32_count m srcPitch count src dst =
     while_dec count
       (\<lambda>(src, dst). Some (cirRefreshArea32_store m src dst))
       (\<lambda>(src, dst). (src + srcPitch, dst + 1))
       (src, dst)"

definition cirRefreshArea32_box :: "ScrnInfoRec \<Rightarrow> CirRec \<Rightarrow> BoxRec \<Rightarrow> access list option" where
  "cirRefreshArea32_box pScrn pCir pbox =
     (let dstPitch = displayWidth pScrn;
          srcPitch = drop_bit 2 (i32 (i32 (- rotateC pCir) * ShadowPitch pCir));
          width = x2 pbox - x1 pbox;
          height = y2 pbox - y1 pbox;
          dstPtr = (if rotateC pCir = 1
                    then i32 (x1 pbox * dstPitch) + virtualX pScrn - y2 pbox
                    else i32 (i32 (virtualY pScrn - x2 pbox) * dstPitch) + y1 pbox);
          srcPtr = (if rotateC pCir = 1
                    then i32 ((1 - y2 pbox) * srcPitch) + x1 pbox
                    else i32 (y1 pbox * srcPitch) + x2 pbox - 1)
      in while_dec width
           (\<lambda>(srcPtr, dstPtr). cirRefreshArea32_count (ShadowPtr pCir) srcPitch height srcPtr dstPtr)
           (\<lambda>(srcPtr, dstPtr). (srcPtr + rotateC pCir, dstPtr + dstPitch))
           (srcPtr, dstPtr))"

definition cirRefreshArea32 :: "ScrnInfoRec \<Rightarrow> CirRec \<Rightarrow> BoxRec list \<Rightarrow> access list option" where
  "cirRefreshArea32 pScrn pCir pbox = box_loop (cirRefreshArea32_box pScrn pCir) pbox"

section \<open>The per-pixel reference copy\<close>

text \<open>
  The reference against which the packed stores are compared copies one pixel at a time,
  byte by byte: \<open>copy_pixel\<close> copies the \<open>Bpp\<close> bytes of one pixel, \<open>copy_column\<close>
  copies \<open>n\<close> pixels that are consecutive in the destination row and \<open>srcPitch\<close> bytes
  apart in the source, and \<open>copy_region\<close> does so for \<open>w\<close> destination rows that are
  \<open>dstPitch\<close> bytes apart, the source start moving by \<open>srcStep\<close> bytes from one row to the
  next.  All offsets are byte offsets.  The result is the list of bytes stored, in order:
  each entry is the destination offset with the value \<open>m\<close> has at the source offset.  With
  the identity for \<open>m\<close> the entry is the pair of the destination and the source offset.
\<close>

definition copy_pixel :: "(int \<Rightarrow> 'v) \<Rightarrow> nat \<Rightarrow> int \<Rightarrow> int \<Rightarrow> (int \<times> 'v) list" where
  "copy_pixel m Bpp dst src = map (\<lambda>b. (dst + int b, m (src + int b))) [0..<Bpp]"

definition copy_column ::
  "(int \<Rightarrow> 'v) \<Rightarrow> nat \<Rightarrow> nat \<Rightarrow> int \<Rightarrow> int \<Rightarrow> int \<Rightarrow> (int \<times> 'v) list" where
  "copy_column m Bpp n dst src srcPitch =
     concat (map (\<lambda>k. copy_pixel m Bpp (dst + int k * int Bpp) (src + int k * srcPitch))
                 [0..<n])"

definition copy_region ::
  "(int \<Rightarrow> 'v) \<Rightarrow> nat \<Rightarrow> nat \<Rightarrow> nat \<Rightarrow> int \<Rightarrow> int \<Rightarrow> int \<Rightarrow> int \<Rightarrow> int \<Rightarrow> (int \<times> 'v) list" where
  "copy_region m Bpp w n dst dstPitch src srcStep srcPitch =
     concat (map (\<lambda>i. copy_column m Bpp n (dst + int i * dstPitch) (src + int i * srcStep)
                          srcPitch)
                 [0..<w])"

text \<open>
  The two transposed copies, in pixel coordinates.  The shadow buffer has pitch \<open>SP\<close>, the
  frame buffer has pitch \<open>P\<close>, visible width \<open>V\<close> and visible height \<open>H\<close> (in pixels), and
  byte \<open>b\<close> of the pixel in row \<open>r\<close>, column \<open>c\<close> of a buffer of pitch \<open>P\<close> lies at offset
  \<open>pixel_addr P Bpp r c b\<close>.  \<open>rot90_copy\<close> copies the shadow pixels of the columns
  \<open>X1 \<le> x < X2\<close> and the rows \<open>Y1 \<le> y < Y2\<close>, pixel \<open>(x, y)\<close> going to row \<open>x\<close>, column
  \<open>V - 1 - y\<close> of the frame buffer; \<open>rot270_copy\<close> sends pixel \<open>(x, y)\<close> to row
  \<open>H - 1 - x\<close>, column \<open>y\<close>.  Both write the frame buffer rows in ascending order and each
  row from left to right.
\<close>

definition pixel_addr :: "int \<Rightarrow> nat \<Rightarrow> int \<Rightarrow> int \<Rightarrow> nat \<Rightarrow> int" where
  "pixel_addr P Bpp r c b = r * P + c * int Bpp + int b"

definition rot90_copy ::
  "(int \<Rightarrow> 'v) \<Rightarrow> nat \<Rightarrow> int \<Rightarrow> int \<Rightarrow> int \<Rightarrow> int \<Rightarrow> int \<Rightarrow> int \<Rightarrow> int \<Rightarrow> (int \<times> 'v) list" where
  "rot90_copy m Bpp P SP V X1 X2 Y1 Y2 =
     copy_region m Bpp (nat (X2 - X1)) (nat (Y2 - Y1))
       (pixel_addr P Bpp X1 (V - Y2) 0) P (pixel_addr SP Bpp (Y2 - 1) X1 0) (int Bpp) (- SP)"

definition rot270_copy ::
  "(int \<Rightarrow> 'v) \<Rightarrow> nat \<Rightarrow> int \<Rightarrow> int \<Rightarrow> int \<Rightarrow> int \<Rightarrow> int \<Rightarrow> int \<Rightarrow> int \<Rightarrow> (int \<times> 'v) list" where
  "rot270_copy m Bpp P SP H X1 X2 Y1 Y2 =
     copy_region m Bpp (nat (X2 - X1)) (nat (Y2 - Y1))
       (pixel_addr P Bpp (H - X2) Y1 0) P (pixel_addr SP Bpp Y1 (X2 - 1) 0) (- int Bpp) SP"

text \<open>Rounding a row number down and up to a multiple of the packing group size \<open>g\<close>.\<close>

definition round_down :: "int \<Rightarrow> int \<Rightarrow> int" where
  "round_down g y = g * (y div g)"

definition round_up :: "int \<Rightarrow> int \<Rightarrow> int" where
  "round_up g y = g * ((y + g - 1) div g)"

section \<open>The routine for a depth, and the frame buffer\<close>

text \<open>
  Modelled from the spec: the choice of the rotating routine by the depth of the screen
  (the dispatch of section 4.4) is made by the driver's screen initialisation, which is not
  part of \<^verbatim>\<open>cir_shadow.c\<close>.  \<open>rot_box\<close> and \<open>rot_refresh\<close> name the routine for a depth so
  that a statement can range over the four routines; \<open>bytes_pp\<close> is the size of a pixel,
  \<open>group_size\<close> the number of pixels the routine packs per group of stores, \<open>src_unit\<close> the
  size of the type its source pointer points to, and \<open>fb_pitch\<close> the distance in bytes
  between two frame buffer rows as the routine computes it.
\<close>

datatype depth = D8 | D16 | D24 | D32

fun bytes_pp :: "depth \<Rightarrow> nat" where
  "bytes_pp D8 = 1" | "bytes_pp D16 = 2" | "bytes_pp D24 = 3" | "bytes_pp D32 = 4"

fun group_size :: "depth \<Rightarrow> int" where
  "group_size D8 = 4" | "group_size D16 = 2" | "group_size D24 = 4" | "group_size D32 = 1"

fun src_unit :: "depth \<Rightarrow> int" where
  "src_unit D8 = 1" | "src_unit D16 = 2" | "src_unit D24 = 1" | "src_unit D32 = 4"

fun fb_pitch :: "(int \<Rightarrow> int) \<Rightarrow> depth \<Rightarrow> ScrnInfoRec \<Rightarrow> int" where
  "fb_pitch BitmapBytePad D8 pScrn = displayWidth pScrn"
| "fb_pitch BitmapBytePad D16 pScrn = 2 * displayWidth pScrn"
| "fb_pitch BitmapBytePad D24 pScrn = BitmapBytePad (i32 (displayWidth pScrn * 24))"
| "fb_pitch BitmapBytePad D32 pScrn = 4 * displayWidth pScrn"

fun rot_box ::
  "(int \<Rightarrow> int) \<Rightarrow> depth \<Rightarrow> ScrnInfoRec \<Rightarrow> CirRec \<Rightarrow> BoxRec \<Rightarrow> access list option" where
  "rot_box BitmapBytePad D8 = cirRefreshArea8_box"
| "rot_box BitmapBytePad D16 = cirRefreshArea16_box"
| "rot_box BitmapBytePad D24 = cirRefreshArea24_box BitmapBytePad"
| "rot_box BitmapBytePad D32 = cirRefreshArea32_box"

fun rot_refresh ::
  "(int \<Rightarrow> int) \<Rightarrow> depth \<Rightarrow> ScrnInfoRec \<Rightarrow> CirRec \<Rightarrow> BoxRec list \<Rightarrow> access list option" where
  "rot_refresh BitmapBytePad D8 = cirRefreshArea8"
| "rot_refresh BitmapBytePad D16 = cirRefreshArea16"
| "rot_refresh BitmapBytePad D24 = cirRefreshArea24 BitmapBytePad"
| "rot_refresh BitmapBytePad D32 = cirRefreshArea32"

text \<open>
  \<open>store_all\<close> applies a list of byte stores to a memory, in order.  \<open>in_fb P Bpp V H a\<close>
  says that the byte offset \<open>a\<close> lies inside the visible part of a frame buffer of pitch
  \<open>P\<close> bytes, \<open>V\<close> pixels wide and \<open>H\<close> rows high: it belongs to one of the rows
  \<open>0 \<le> r < H\<close> and, within the row, to one of the pixels \<open>0 \<le> c < V\<close>.
\<close>

fun store_all :: "(int \<times> 8 word) list \<Rightarrow> mem \<Rightarrow> mem" where
  "store_all [] fb = fb"
| "store_all ((a, v) # ws) fb = store_all ws (fb(a := v))"

definition in_fb :: "int \<Rightarrow> nat \<Rightarrow> int \<Rightarrow> int \<Rightarrow> int \<Rightarrow> bool" where
  "in_fb P Bpp V H a \<longleftrightarrow> 0 \<le> a \<and> a div P < H \<and> a mod P < V * int Bpp"

text \<open>
  The point reflection of a frame buffer through its centre: the pixel in row \<open>r\<close>, column
  \<open>c\<close> of the reflected buffer is the pixel in row \<open>H - 1 - r\<close>, column \<open>V - 1 - c\<close> of the
  buffer, byte for byte; the bytes outside the visible part stay where they are.
\<close>

definition reflect_addr :: "int \<Rightarrow> nat \<Rightarrow> int \<Rightarrow> int \<Rightarrow> int \<Rightarrow> int" where
  "reflect_addr P Bpp V H a =
     pixel_addr P Bpp (H - 1 - a div P) (V - 1 - (a mod P) div int Bpp)
       (nat ((a mod P) mod int Bpp))"

definition reflect :: "int \<Rightarrow> nat \<Rightarrow> int \<Rightarrow> int \<Rightarrow> mem \<Rightarrow> mem" where
  "reflect P Bpp V H fb =
     (\<lambda>a. if in_fb P Bpp V H a then fb (reflect_addr P Bpp V H a) else fb a)"

text \<open>
  \<open>after r fb\<close> is the frame buffer after a call whose accesses are \<open>r\<close>, started on the
  frame buffer \<open>fb\<close>; it is \<open>None\<close> when the call has no outcome.  \<open>rows_read SP t\<close> lists
  the shadow scanlines (of pitch \<open>SP\<close>) that the loads of \<open>t\<close> touch, each once.
\<close>

definition after :: "access list option \<Rightarrow> mem \<Rightarrow> mem option" where
  "after r fb = map_option (\<lambda>t. run t fb) r"

definition rows_read :: "int \<Rightarrow> access list \<Rightarrow> int list" where
  "rows_read SP t = remdups (map (\<lambda>a. a div SP) (reads t))"

text \<open>
  \<open>rows_beyond SP ya yb r\<close> lists the scanlines that a call with accesses \<open>r\<close> reads outside
  the rows \<open>ya \<le> y < yb\<close>.  \<open>stores_in_fb P Bpp V H r\<close> tells whether every store of the call
  lies inside the visible part of the frame buffer.
\<close>

definition rows_beyond :: "int \<Rightarrow> int \<Rightarrow> int \<Rightarrow> access list option \<Rightarrow> int list option" where
  "rows_beyond SP ya yb r =
     map_option (\<lambda>t. filter (\<lambda>y. y < ya \<or> yb \<le> y) (rows_read SP t)) r"

definition stores_in_fb :: "int \<Rightarrow> nat \<Rightarrow> int \<Rightarrow> int \<Rightarrow> access list option \<Rightarrow> bool option" where
  "stores_in_fb P Bpp V H r =
     map_option (\<lambda>t. list_all (\<lambda>(a, v). in_fb P Bpp V H a) (writes t)) r"

text \<open>
  For the concrete examples, \<^verbatim>\<open>BitmapBytePad\<close> is instantiated by the padding of a number
  of bits to whole 32-bit words, in bytes.
\<close>

definition pad32 :: "int \<Rightarrow> int" where
  "pad32 bits = 4 * ((bits + 31) div 32)"

text \<open>
  The round trip of a rotation: the Rotate90 blit of the whole shadow buffer (\<open>virtualY\<close>
  pixels wide, \<open>virtualX\<close> rows high) into a frame buffer \<open>fb0\<close>, followed by the inverse
  rotation, the Rotate270 blit that takes the rotated frame buffer as its shadow buffer and
  stores into a second frame buffer \<open>fb0'\<close> with the dimensions of the original shadow
  buffer (described by \<open>pScrn'\<close>).  \<open>byte_at r a\<close> reads byte \<open>a\<close> of a resulting memory,
  and \<open>blank\<close> is a memory of zeros.
\<close>

definition round_trip ::
  "(int \<Rightarrow> int) \<Rightarrow> depth \<Rightarrow> ScrnInfoRec \<Rightarrow> ScrnInfoRec \<Rightarrow> int \<Rightarrow> mem \<Rightarrow> mem \<Rightarrow> mem
     \<Rightarrow> mem option" where
  "round_trip BitmapBytePad d pScrn pScrn' SP shadow fb0 fb0' =
     Option.bind
       (after (rot_box BitmapBytePad d pScrn
                 \<lparr>rotateC = 1, ShadowPitch = SP, ShadowPtr = shadow\<rparr>
                 \<lparr>x1 = 0, y1 = 0, x2 = virtualY pScrn, y2 = virtualX pScrn\<rparr>) fb0)
       (\<lambda>fb1. after (rot_box BitmapBytePad d pScrn'
                 \<lparr>rotateC = - 1, ShadowPitch = fb_pitch BitmapBytePad d pScrn, ShadowPtr = fb1\<rparr>
                 \<lparr>x1 = 0, y1 = 0, x2 = virtualX pScrn, y2 = virtualY pScrn\<rparr>) fb0')"

definition byte_at :: "mem option \<Rightarrow> int \<Rightarrow> 8 word option" where
  "byte_at r a = map_option (\<lambda>fb. fb a) r"

definition blank :: mem where
  "blank = (\<lambda>a. 0)"

section \<open>Auxiliary facts\<close>

subsection \<open>The counted loop\<close>

lemma while_dec_affine:
  "while_dec n (\<lambda>(a, b). Some (f a b)) (\<lambda>(a, b). (a + p, b + q)) (a0, b0) =
     (if n < 0 then None
      else Some (concat (map (\<lambda>k. f (a0 + int k * p) (b0 + int k * q)) [0..<nat n])))"
proof (induction "nat n" arbitrary: n a0 b0)
  case 0
  then show ?case by (subst while_dec.simps) auto
next
  case (Suc k)
  then have n: "0 < n" and k: "k = nat (n - 1)" and nk: "nat n = Suc k" by linarith+
  have "while_dec n (\<lambda>(a, b). Some (f a b)) (\<lambda>(a, b). (a + p, b + q)) (a0, b0) =
        map_option ((@) (f a0 b0))
          (while_dec (n - 1) (\<lambda>(a, b). Some (f a b)) (\<lambda>(a, b). (a + p, b + q)) (a0 + p, b0 + q))"
    using n by (subst while_dec.simps) simp
  also have "\<dots> = Some (f a0 b0 @
       concat (map (\<lambda>j. f (a0 + p + int j * p) (b0 + q + int j * q)) [0..<k]))"
    using Suc.hyps(1) [OF k] n k by simp
  also have "\<dots> = Some (concat (map (\<lambda>j. f (a0 + int j * p) (b0 + int j * q)) [0..<Suc k]))"
    by (simp only: map_upt_Suc) (simp add: algebra_simps)
  finally show ?case using n nk by simp
qed

lemma while_dec_zero: "while_dec 0 body step s = Some []"
  by (subst while_dec.simps) simp

subsection \<open>Masks and byte packing\<close>

lemma and_not_mask_int: "(y::int) AND NOT (mask k) = 2 ^ k * (y div 2 ^ k)"
proof -
  have "y AND NOT (mask k) = push_bit k (drop_bit k y)"
  proof (rule bit_eqI)
    fix n
    show "bit (y AND NOT (mask k)) n \<longleftrightarrow> bit (push_bit k (drop_bit k y)) n"
    proof (cases "k \<le> n")
      case True
      then obtain j where "n = k + j" using le_Suc_ex by blast
      then show ?thesis by (simp add: bit_simps)
    next
      case False
      then show ?thesis by (simp add: bit_simps)
    qed
  qed
  then show ?thesis by (simp add: push_bit_eq_mult drop_bit_eq_div)
qed

lemma and_not_3: "(y::int) AND NOT 3 = 4 * (y div 4)"
  using and_not_mask_int [of y 2] by (simp add: mask_eq_exp_minus_1)

lemma and_not_1: "(y::int) AND NOT 1 = 2 * (y div 2)"
  using and_not_mask_int [of y 1] by (simp add: mask_eq_exp_minus_1)

lemma pack_bytes:
  fixes a b c d :: "8 word"
  defines "v \<equiv> (ucast a :: 32 word) OR push_bit 8 (ucast b) OR push_bit 16 (ucast c)
                 OR push_bit 24 (ucast d)"
  shows "ucast v = a" and "ucast (drop_bit 8 v) = b"
    and "ucast (drop_bit 16 v) = c" and "ucast (drop_bit 24 v) = d"
  unfolding v_def
  by (rule bit_word_eqI; auto simp: bit_simps dest: bit_imp_le_length)+

lemma pack_halves:
  fixes a b :: "16 word"
  defines "v \<equiv> (ucast a :: 32 word) OR push_bit 16 (ucast b)"
  shows "(ucast v :: 8 word) = ucast a"
    and "(ucast (drop_bit 8 v) :: 8 word) = ucast (drop_bit 8 a)"
    and "(ucast (drop_bit 16 v) :: 8 word) = ucast b"
    and "(ucast (drop_bit 24 v) :: 8 word) = ucast (drop_bit 8 b)"
  unfolding v_def
  by (rule bit_word_eqI; auto simp: bit_simps dest: bit_imp_le_length)+

lemma ld16_bytes:
  "(ucast (ld16 m p) :: 8 word) = m (2 * p)"
  "(ucast (drop_bit 8 (ld16 m p)) :: 8 word) = m (2 * p + 1)"
  unfolding ld16_def
  by (rule bit_word_eqI; auto simp: bit_simps dest: bit_imp_le_length)+

lemma ld32_bytes:
  "(ucast (ld32 m p) :: 8 word) = m (4 * p)"
  "(ucast (drop_bit 8 (ld32 m p)) :: 8 word) = m (4 * p + 1)"
  "(ucast (drop_bit 16 (ld32 m p)) :: 8 word) = m (4 * p + 2)"
  "(ucast (drop_bit 24 (ld32 m p)) :: 8 word) = m (4 * p + 3)"
  unfolding ld32_def by (rule pack_bytes)+

subsection \<open>Traces\<close>

lemma writes_append: "writes (s @ t) = writes s @ writes t"
  by (induction s rule: writes.induct) simp_all

lemma writes_concat: "writes (concat ts) = concat (map writes ts)"
  by (induction ts) (simp_all add: writes_append)

lemma reads_append: "reads (s @ t) = reads s @ reads t"
  by (induction s rule: reads.induct) simp_all

lemma reads_concat: "reads (concat ts) = concat (map reads ts)"
  by (induction ts) (simp_all add: reads_append)

lemma run_append: "run (s @ t) fb = run t (run s fb)"
proof (induction s arbitrary: fb)
  case Nil
  show ?case by simp
next
  case (Cons x s)
  then show ?case by (cases x) (simp_all add: fun_upd_def)
qed

subsection \<open>The packed stores as per-pixel copies\<close>

lemma copy_column_add:
  "copy_column m Bpp (a + b) dst src sp =
     copy_column m Bpp a dst src sp
     @ copy_column m Bpp b (dst + int a * int Bpp) (src + int a * sp) sp"
proof -
  let ?F = "\<lambda>k. copy_pixel m Bpp (dst + int k * int Bpp) (src + int k * sp)"
  have "[0..<a + b] = [0..<a] @ [a..<a + b]"
    by (rule upt_add_eq_append) simp
  also have "[a..<a + b] = map (\<lambda>k. k + a) [0..<b]"
    by (simp only: map_add_upt add.commute)
  also have "\<dots> = map (\<lambda>k. a + k) [0..<b]"
    by (simp only: add.commute)
  finally have "[0..<a + b] = [0..<a] @ map (\<lambda>k. a + k) [0..<b]" .
  then have "concat (map ?F [0..<a + b]) =
      concat (map ?F [0..<a]) @ concat (map (\<lambda>k. ?F (a + k)) [0..<b])"
    by (simp only: map_append concat_append map_map o_def)
  moreover have "?F (a + k) = copy_pixel m Bpp (dst + int a * int Bpp + int k * int Bpp)
      (src + int a * sp + int k * sp)" for k
    by (simp add: distrib_right add.assoc)
  ultimately show ?thesis
    by (simp only: copy_column_def)
qed

lemma copy_column_groups:
  "concat (map (\<lambda>j. copy_column m Bpp g (dst + int j * dq) (src + int j * sq) sp) [0..<n]) =
     copy_column m Bpp (n * g) dst src sp"
  if "dq = int g * int Bpp" and "sq = int g * sp"
proof (induction n)
  case 0
  show ?case by (simp add: copy_column_def)
next
  case (Suc n)
  have "copy_column m Bpp (Suc n * g) dst src sp =
      copy_column m Bpp (n * g) dst src sp
      @ copy_column m Bpp g (dst + int (n * g) * int Bpp) (src + int (n * g) * sp) sp"
    using copy_column_add [of m Bpp "n * g" g dst src sp] by (simp add: add.commute)
  moreover have "int (n * g) * int Bpp = int n * dq" "int (n * g) * sp = int n * sq"
    unfolding that by (simp_all add: mult.assoc)
  ultimately show ?case
    using Suc by (simp del: of_nat_mult mult_Suc)
qed

lemma upt_4: "[0..<4] = [0, 1, 2, 3]" and upt_3: "[0..<3] = [0, 1, 2]"
  and upt_2: "[0..<2] = [0, 1]" and upt_1: "[0..<1] = [0]"
  by (simp_all add: upt_conv_Cons)

lemma store32_pack:
  "writes (store32 d (ucast a OR push_bit 8 (ucast b) OR push_bit 16 (ucast c)
                       OR push_bit 24 (ucast e))) =
     [(d, a), (d + 1, b), (d + 2, c), (d + 3, e)]"
  unfolding store32_def by (simp only: writes.simps pack_bytes)

lemma store32_halves:
  "writes (store32 d (ucast (ld16 m p) OR push_bit 16 (ucast (ld16 m q)))) =
     [(d, m (2 * p)), (d + 1, m (2 * p + 1)), (d + 2, m (2 * q)), (d + 3, m (2 * q + 1))]"
  unfolding store32_def by (simp only: writes.simps pack_halves ld16_bytes)

lemma store32_ld32:
  "writes (store32 d (ld32 m p)) =
     [(d, m (4 * p)), (d + 1, m (4 * p + 1)), (d + 2, m (4 * p + 2)), (d + 3, m (4 * p + 3))]"
  unfolding store32_def by (simp only: writes.simps ld32_bytes)

lemma writes_rd16 [simp]: "writes (rd16 p) = []" and writes_rd32 [simp]: "writes (rd32 p) = []"
  by (simp_all add: rd16_def rd32_def)

lemma store8_writes:
  "writes (cirRefreshArea8_store m srcPitch s d) = copy_column m 1 4 d s srcPitch"
  by (simp add: cirRefreshArea8_store_def writes_append store32_pack copy_column_def
      copy_pixel_def upt_4 upt_1 mult.commute)

lemma store16_writes:
  "writes (cirRefreshArea16_store m srcPitch s d) = copy_column m 2 2 d (2 * s) (2 * srcPitch)"
  by (simp add: cirRefreshArea16_store_def writes_append store32_halves copy_column_def
      copy_pixel_def upt_2 algebra_simps)

lemma store24_writes:
  "writes (cirRefreshArea24_store m srcPitch s d) = copy_column m 3 4 d s srcPitch"
  by (simp add: cirRefreshArea24_store_def writes_append store32_pack copy_column_def
      copy_pixel_def upt_4 upt_3 algebra_simps)

lemma store32_writes:
  "writes (cirRefreshArea32_store m s d) = copy_pixel m 4 (4 * d) (4 * s)"
  by (simp add: cirRefreshArea32_store_def writes_append store32_ld32 copy_pixel_def upt_4)

lemma copy_pixel_map:
  "map (\<lambda>(d, s). (d, f s)) (copy_pixel (\<lambda>a. a) Bpp dst src) = copy_pixel f Bpp dst src"
  by (simp add: copy_pixel_def)

lemma copy_column_map:
  "map (\<lambda>(d, s). (d, f s)) (copy_column (\<lambda>a. a) Bpp n dst src sp) = copy_column f Bpp n dst src sp"
  by (simp add: copy_column_def map_concat o_def copy_pixel_map)

lemma copy_region_map:
  "map (\<lambda>(d, s). (d, f s)) (copy_region (\<lambda>a. a) Bpp w n dst dp src sc sp) =
     copy_region f Bpp w n dst dp src sc sp"
  by (simp add: copy_region_def map_concat o_def copy_column_map)

lemma store8_reads:
  "reads (cirRefreshArea8_store m srcPitch s d) = map snd (copy_column (\<lambda>a. a) 1 4 d s srcPitch)"
  by (simp add: cirRefreshArea8_store_def reads_append store32_def copy_column_def
      copy_pixel_def upt_4 upt_1 mult.commute)

lemma store16_reads:
  "reads (cirRefreshArea16_store m srcPitch s d) =
     map snd (copy_column (\<lambda>a. a) 2 2 d (2 * s) (2 * srcPitch))"
  by (simp add: cirRefreshArea16_store_def reads_append store32_def rd16_def copy_column_def
      copy_pixel_def upt_2 algebra_simps)

lemma store24_reads:
  "reads (cirRefreshArea24_store m srcPitch s d) = map snd (copy_column (\<lambda>a. a) 3 4 d s srcPitch)"
  by (simp add: cirRefreshArea24_store_def reads_append store32_def copy_column_def
      copy_pixel_def upt_4 upt_3 algebra_simps)

lemma store32_reads:
  "reads (cirRefreshArea32_store m s d) = map snd (copy_pixel (\<lambda>a. a) 4 (4 * d) (4 * s))"
  by (simp add: cirRefreshArea32_store_def reads_append store32_def rd32_def copy_pixel_def upt_4)

lemma concat_map_map:
  "concat (map (\<lambda>x. map \<phi> (F x)) xs) = map \<phi> (concat (map F xs))"
  by (simp add: map_concat o_def)

lemma count8_gen:
  fixes g :: "access list \<Rightarrow> 'b list"
  assumes hom: "\<And>ts. g (concat ts) = concat (map g ts)"
    and st: "\<And>s d. g (cirRefreshArea8_store m sp s d) = map \<phi> (copy_column (\<lambda>a. a) 1 4 d s sp)"
  shows "map_option g (cirRefreshArea8_count m sp count src dst) =
     (if count < 0 then None
      else Some (map \<phi> (copy_column (\<lambda>a. a) 1 (nat count * 4) dst src sp)))"
  unfolding cirRefreshArea8_count_def while_dec_affine
  by (simp add: hom o_def st concat_map_map copy_column_groups)

lemma count16_gen:
  fixes g :: "access list \<Rightarrow> 'b list"
  assumes hom: "\<And>ts. g (concat ts) = concat (map g ts)"
    and st: "\<And>s d. g (cirRefreshArea16_store m sp s d) =
               map \<phi> (copy_column (\<lambda>a. a) 2 2 d (2 * s) (2 * sp))"
  shows "map_option g (cirRefreshArea16_count m sp count src dst) =
     (if count < 0 then None
      else Some (map \<phi> (copy_column (\<lambda>a. a) 2 (nat count * 2) dst (2 * src) (2 * sp))))"
proof -
  have "concat (map (\<lambda>k. copy_column (\<lambda>a. a) 2 2 (dst + int k * 4) (2 * (src + int k * (sp * 2)))
             (2 * sp)) [0..<nat count]) = copy_column (\<lambda>a. a) 2 (nat count * 2) dst (2 * src) (2 * sp)"
    using copy_column_groups [of 4 2 2 "2 * sp * 2" "2 * sp" "\<lambda>a. a" dst "2 * src" "nat count"]
    by (simp add: algebra_simps)
  then show ?thesis
    unfolding cirRefreshArea16_count_def while_dec_affine
    by (simp add: hom o_def st concat_map_map)
qed

lemma count24_gen:
  fixes g :: "access list \<Rightarrow> 'b list"
  assumes hom: "\<And>ts. g (concat ts) = concat (map g ts)"
    and st: "\<And>s d. g (cirRefreshArea24_store m sp s d) = map \<phi> (copy_column (\<lambda>a. a) 3 4 d s sp)"
  shows "map_option g (cirRefreshArea24_count m sp count src dst) =
     (if count < 0 then None
      else Some (map \<phi> (copy_column (\<lambda>a. a) 3 (nat count * 4) dst src sp)))"
proof -
  have "concat (map (\<lambda>k. copy_column (\<lambda>a. a) 3 4 (dst + int k * 12) (src + int k * (sp * 4))
             sp) [0..<nat count]) = copy_column (\<lambda>a. a) 3 (nat count * 4) dst src sp"
    using copy_column_groups [of 12 4 3 "sp * 4" sp "\<lambda>a. a" dst src "nat count"]
    by (simp add: algebra_simps)
  then show ?thesis
    unfolding cirRefreshArea24_count_def while_dec_affine
    by (simp add: hom o_def st concat_map_map)
qed

lemma count32_gen:
  fixes g :: "access list \<Rightarrow> 'b list"
  assumes hom: "\<And>ts. g (concat ts) = concat (map g ts)"
    and st: "\<And>s d. g (cirRefreshArea32_store m s d) = map \<phi> (copy_pixel (\<lambda>a. a) 4 (4 * d) (4 * s))"
  shows "map_option g (cirRefreshArea32_count m sp count src dst) =
     (if count < 0 then None
      else Some (map \<phi> (copy_column (\<lambda>a. a) 4 (nat count) (4 * dst) (4 * src) (4 * sp))))"
proof -
  have "copy_pixel (\<lambda>a. a) 4 (4 * (dst + int k * 1)) (4 * (src + int k * sp)) =
      copy_pixel (\<lambda>a. a) 4 (4 * dst + int k * int 4) (4 * src + int k * (4 * sp))" for k
    by (simp add: algebra_simps)
  then show ?thesis
    unfolding cirRefreshArea32_count_def while_dec_affine
    by (simp add: hom o_def st copy_column_def concat_map_map)
qed

subsection \<open>The loop over the destination rows\<close>

lemma while_dec_hom:
  fixes g :: "access list \<Rightarrow> 'b list"
  assumes hom: "\<And>ts. g (concat ts) = concat (map g ts)"
    and body: "\<And>a b. map_option g (body a b) = Some (W a b)"
  shows "map_option g (while_dec n (\<lambda>(a, b). body a b) (\<lambda>(a, b). (a + p, b + q)) (a0, b0)) =
     (if n < 0 then None
      else Some (concat (map (\<lambda>k. W (a0 + int k * p) (b0 + int k * q)) [0..<nat n])))"
proof -
  have "body a b = Some (the (body a b))" and "g (the (body a b)) = W a b" for a b
    using body [of a b] by (cases "body a b"; simp)+
  then have eq: "(\<lambda>(a, b). body a b) = (\<lambda>(a, b). Some (the (body a b)))"
    and W: "\<And>a b. g (the (body a b)) = W a b"
    by (auto simp: fun_eq_iff)
  show ?thesis
    unfolding eq while_dec_affine by (simp add: hom o_def W)
qed

lemma outer_gen:
  fixes g :: "access list \<Rightarrow> 'b list"
  assumes hom: "\<And>ts. g (concat ts) = concat (map g ts)"
    and "\<And>a b. map_option g (body a b) =
           Some (map \<phi> (copy_column (\<lambda>a. a) Bpp n (u * b) (u * a) sp))"
  shows "map_option g
           (while_dec w (\<lambda>(a, b). body a b) (\<lambda>(a, b). (a + p, b + q)) (a0, b0)) =
     (if w < 0 then None
      else Some (map \<phi> (copy_region (\<lambda>a. a) Bpp (nat w) n (u * b0) (u * q) (u * a0) (u * p) sp)))"
  unfolding while_dec_hom [of g, OF assms] copy_region_def
  by (simp add: concat_map_map algebra_simps)

subsection \<open>Rounding to the packing group\<close>

lemma round_down_le: "0 < g \<Longrightarrow> round_down g y \<le> y"
  and round_down_gt: "0 < g \<Longrightarrow> y - (g - 1) \<le> round_down g y"
  and round_up_ge: "0 < g \<Longrightarrow> y \<le> round_up g y"
  and round_up_lt: "0 < g \<Longrightarrow> round_up g y \<le> y + (g - 1)"
proof -
  assume g: "0 < g"
  have 1: "g * (y div g) + y mod g = y" by simp
  have 2: "0 \<le> y mod g" "y mod g < g" using g by simp_all
  show "round_down g y \<le> y" "y - (g - 1) \<le> round_down g y"
    unfolding round_down_def using 1 2 by linarith+
  have 3: "g * ((y + g - 1) div g) + (y + g - 1) mod g = y + g - 1" by simp
  have 4: "0 \<le> (y + g - 1) mod g" "(y + g - 1) mod g < g" using g by simp_all
  show "y \<le> round_up g y" "round_up g y \<le> y + (g - 1)"
    unfolding round_up_def using 3 4 by linarith+
qed

lemma round_diff:
  assumes "0 < g" "a \<le> b"
  shows "(round_up g b - round_down g a) div g = (b + g - 1) div g - a div g"
    and "0 \<le> (b + g - 1) div g - a div g"
    and "int (nat ((b + g - 1) div g - a div g)) * g = round_up g b - round_down g a"
proof -
  have "round_up g b - round_down g a = g * ((b + g - 1) div g - a div g)"
    by (simp add: round_up_def round_down_def algebra_simps)
  then show 1: "(round_up g b - round_down g a) div g = (b + g - 1) div g - a div g"
    using assms by simp
  have "a div g \<le> (b + g - 1) div g"
    using assms by (intro zdiv_mono1) simp_all
  then show 2: "0 \<le> (b + g - 1) div g - a div g" by simp
  show "int (nat ((b + g - 1) div g - a div g)) * g = round_up g b - round_down g a"
    using 2 by (simp add: round_up_def round_down_def algebra_simps)
qed

lemma masks4:
  "(y + 3) AND NOT 3 = round_up 4 y" "y AND NOT 3 = round_down 4 y"
  using and_not_3 [of "y + 3"] and_not_3 [of y] by (simp_all add: round_down_def round_up_def)

lemma masks2:
  "(y + 1) AND NOT 1 = round_up 2 y" "y AND NOT 1 = round_down 2 y"
  using and_not_1 [of "y + 1"] and_not_1 [of y] by (simp_all add: round_down_def round_up_def)

lemma round_down_up:
  "round_down 4 (y + 3) = round_up 4 y" "round_down 2 (y + 1) = round_up 2 y"
  by (simp_all add: round_down_def round_up_def)

lemma group_height:
  assumes "0 < g" and "a \<le> b"
  shows "0 \<le> (round_up g b - round_down g a) div g"
    and "nat ((round_up g b - round_down g a) div g) * nat g = nat (round_up g b - round_down g a)"
proof -
  let ?q = "(b + g - 1) div g - a div g"
  have q: "(round_up g b - round_down g a) div g = ?q" and q0: "0 \<le> ?q"
    and R: "int (nat ?q) * g = round_up g b - round_down g a"
    using round_diff [OF assms] by blast+
  show "0 \<le> (round_up g b - round_down g a) div g"
    using q q0 by simp
  have "int (nat ?q * nat g) = round_up g b - round_down g a"
    using R assms(1) by simp
  then show "nat ((round_up g b - round_down g a) div g) * nat g =
      nat (round_up g b - round_down g a)"
    unfolding q by linarith
qed

lemma height4:
  assumes "a \<le> b"
  shows "0 \<le> drop_bit 2 (round_up 4 b - round_down 4 a)"
    and "nat (drop_bit 2 (round_up 4 b - round_down 4 a)) * 4 = nat (round_up 4 b - round_down 4 a)"
  using group_height [of 4 a b] assms by (simp_all add: drop_bit_eq_div)

lemma height2:
  assumes "a \<le> b"
  shows "0 \<le> drop_bit 1 (round_up 2 b - round_down 2 a)"
    and "nat (drop_bit 1 (round_up 2 b - round_down 2 a)) * 2 = nat (round_up 2 b - round_down 2 a)"
  using group_height [of 2 a b] assms by (simp_all add: drop_bit_eq_div)

subsection \<open>Wrapped and exact products\<close>

lemma i32_id: "in_int x \<Longrightarrow> i32 x = x"
  unfolding i32_def in_int_def by (simp add: mod_pos_pos_trivial)

lemma i32_consts:
  "i32 0 = 0" "i32 1 = 1" "i32 (- 1) = - 1" "i32 3 = 3" "i32 (- 3) = - 3"
  by (simp_all add: i32_def)

lemma in_int_pos: "0 \<le> a \<Longrightarrow> a < 2 ^ 31 \<Longrightarrow> in_int a"
  and in_int_neg: "0 \<le> a \<Longrightarrow> a < 2 ^ 31 \<Longrightarrow> in_int (- a)"
  by (simp_all add: in_int_def)

lemma in_int_prod:
  assumes "0 \<le> a" "a \<le> A" "0 \<le> b" "b \<le> B" "A * B < 2 ^ 31"
  shows "in_int (a * b)"
proof -
  have "a * b \<le> A * B" using assms by (intro mult_mono) simp_all
  moreover have "0 \<le> a * b" using assms by simp
  ultimately show ?thesis using assms(5) by (simp add: in_int_def)
qed

lemma in_int_up:
  assumes "0 \<le> Y" "0 \<le> q" "q \<le> S" "S < 2 ^ 31" "Y * S < 2 ^ 31"
  shows "in_int ((1 - Y) * - q)"
proof -
  have 1: "Y * q \<le> Y * S" using assms by (intro mult_left_mono) simp_all
  have 2: "0 \<le> Y * q" using assms by simp
  have 3: "(1 - Y) * - q = Y * q - q" by (simp add: algebra_simps)
  show ?thesis unfolding in_int_def 3 using 1 2 assms by linarith
qed

subsection \<open>One box, as a transposed copy\<close>

lemma copy_region_fst:
  "map fst (copy_region f Bpp w n D P S sc sp) = map fst (copy_region f' Bpp w n D P S' sc' sp')"
  unfolding copy_region_def copy_column_def copy_pixel_def
  by (simp add: map_concat o_def)

lemma copy_region_snd:
  "map snd (copy_region (\<lambda>a. a) Bpp w n D P S sc sp) =
     map snd (copy_region (\<lambda>a. a) Bpp w n D' P' S sc sp)"
  unfolding copy_region_def copy_column_def copy_pixel_def
  by (simp add: map_concat o_def)

lemma outer_gen_fst:
  fixes g :: "access list \<Rightarrow> int list"
  assumes hom: "\<And>ts. g (concat ts) = concat (map g ts)"
    and "\<And>a b. map_option g (body a b) =
           Some (map fst (copy_column (\<lambda>a. a) Bpp n (u * b) (u * a) sp))"
  shows "map_option g
           (while_dec w (\<lambda>(a, b). body a b) (\<lambda>(a, b). (a + p, b + q)) (a0, b0)) =
     (if w < 0 then None
      else Some (map fst (copy_region (\<lambda>a. a) Bpp (nat w) n (u * b0) (u * q) S sc sq)))"
  unfolding outer_gen [of g, OF assms]
  using copy_region_fst [of "\<lambda>a. a" Bpp "nat w" n "u * b0" "u * q" "u * a0" "u * p" sp
      "\<lambda>a. a" S sc sq]
  by simp

lemma outer_gen_snd:
  fixes g :: "access list \<Rightarrow> int list"
  assumes hom: "\<And>ts. g (concat ts) = concat (map g ts)"
    and "\<And>a b. map_option g (body a b) =
           Some (map snd (copy_column (\<lambda>a. a) Bpp n (u * b) (u * a) sp))"
  shows "map_option g
           (while_dec w (\<lambda>(a, b). body a b) (\<lambda>(a, b). (a + p, b + q)) (a0, b0)) =
     (if w < 0 then None
      else Some (map snd (copy_region (\<lambda>a. a) Bpp (nat w) n D P (u * a0) (u * p) sp)))"
  unfolding outer_gen [of g, OF assms]
  using copy_region_snd [of Bpp "nat w" n "u * b0" "u * q" "u * a0" "u * p" sp D P]
  by simp

lemma box8_rot90:
  fixes g :: "access list \<Rightarrow> 'b list"
  assumes hom: "\<And>ts. g (concat ts) = concat (map g ts)"
    and st: "\<And>sp s d. g (cirRefreshArea8_store (ShadowPtr pCir) sp s d) =
               map \<phi> (copy_column (\<lambda>a. a) 1 4 d s sp)"
    and rot: "rotateC pCir = 1"
    and le: "x1 pbox \<le> x2 pbox" "y1 pbox \<le> y2 pbox"
    and dx: "0 \<le> x1 pbox"
    and dp: "0 \<le> displayWidth pScrn" "x1 pbox * (displayWidth pScrn) < 2 ^ 31"
    and ss: "0 \<le> ShadowPitch pCir" "ShadowPitch pCir < 2 ^ 31"
    and sy: "0 \<le> round_up 4 (y2 pbox)" "round_up 4 (y2 pbox) * ShadowPitch pCir < 2 ^ 31"
  shows "map_option g (cirRefreshArea8_box pScrn pCir pbox) =
     Some (map \<phi> (rot90_copy (\<lambda>a. a) 1 (displayWidth pScrn) (ShadowPitch pCir) (virtualX pScrn)
             (x1 pbox) (x2 pbox) (round_down 4 (y1 pbox)) (round_up 4 (y2 pbox))))"
proof -
  have inner: "map_option g (cirRefreshArea8_count (ShadowPtr pCir) sp (drop_bit 2 (round_up 4 (y2 pbox) - round_down 4 (y1 pbox))) a b) =
      Some (map \<phi> (copy_column (\<lambda>a. a) 1 (nat (round_up 4 (y2 pbox) - round_down 4 (y1 pbox))) (1 * b) (1 * a) sp))" for sp a b
    using height4 [OF le(2)] by (simp add: count8_gen [of g, OF hom st])
  have d1: "in_int (x1 pbox * (displayWidth pScrn))"
    by (rule in_int_prod [where A = "x1 pbox" and B = "displayWidth pScrn"]) (use dx dp in simp_all)
  have e_d1: "i32 (x1 pbox * (displayWidth pScrn)) = x1 pbox * (displayWidth pScrn)"
    by (rule i32_id [OF d1])
  have s0: "in_int (- ShadowPitch pCir)"
    by (rule in_int_neg [OF ss])
  have e_sp: "i32 (i32 (- rotateC pCir) * ShadowPitch pCir) = - ShadowPitch pCir"
    using i32_id [OF s0] by (simp add: rot i32_consts)
  have s1: "in_int ((1 - round_up 4 (y2 pbox)) * - ShadowPitch pCir)"
    by (rule in_int_up [where S = "ShadowPitch pCir"]) (use ss sy in simp_all)
  have e_s1: "i32 ((1 - round_up 4 (y2 pbox)) * - ShadowPitch pCir) = (1 - round_up 4 (y2 pbox)) * - ShadowPitch pCir"
    by (rule i32_id [OF s1])
  show ?thesis
    unfolding cirRefreshArea8_box_def Let_def masks4 round_down_up e_d1 e_sp e_s1
      outer_gen [of g, OF hom inner]
    using rot le by (simp add: rot90_copy_def pixel_addr_def algebra_simps)
qed

lemma box8_rot90_dst:
  fixes g :: "access list \<Rightarrow> int list"
  assumes hom: "\<And>ts. g (concat ts) = concat (map g ts)"
    and st: "\<And>sp s d. g (cirRefreshArea8_store (ShadowPtr pCir) sp s d) =
               map fst (copy_column (\<lambda>a. a) 1 4 d s sp)"
    and rot: "rotateC pCir = 1"
    and le: "x1 pbox \<le> x2 pbox" "y1 pbox \<le> y2 pbox"
    and dx: "0 \<le> x1 pbox"
    and dp: "0 \<le> displayWidth pScrn" "x1 pbox * (displayWidth pScrn) < 2 ^ 31"
  shows "map_option g (cirRefreshArea8_box pScrn pCir pbox) =
     Some (map fst (rot90_copy (\<lambda>a. a) 1 (displayWidth pScrn) (SP0) (virtualX pScrn)
             (x1 pbox) (x2 pbox) (round_down 4 (y1 pbox)) (round_up 4 (y2 pbox))))"
proof -
  have inner: "map_option g (cirRefreshArea8_count (ShadowPtr pCir) sp (drop_bit 2 (round_up 4 (y2 pbox) - round_down 4 (y1 pbox))) a b) =
      Some (map fst (copy_column (\<lambda>a. a) 1 (nat (round_up 4 (y2 pbox) - round_down 4 (y1 pbox))) (1 * b) (1 * a) sp))" for sp a b
    using height4 [OF le(2)] by (simp add: count8_gen [of g, OF hom st])
  have d1: "in_int (x1 pbox * (displayWidth pScrn))"
    by (rule in_int_prod [where A = "x1 pbox" and B = "displayWidth pScrn"]) (use dx dp in simp_all)
  have e_d1: "i32 (x1 pbox * (displayWidth pScrn)) = x1 pbox * (displayWidth pScrn)"
    by (rule i32_id [OF d1])
  show ?thesis
    unfolding cirRefreshArea8_box_def Let_def masks4 round_down_up e_d1
      outer_gen_fst [of g, OF hom inner,
        where S = "pixel_addr SP0 1 (round_up 4 (y2 pbox) - 1) (x1 pbox) 0" and sc = "1" and sq = "- SP0"]
    using rot le by (simp add: rot90_copy_def pixel_addr_def algebra_simps)
qed

lemma box8_rot90_src:
  fixes g :: "access list \<Rightarrow> int list"
  assumes hom: "\<And>ts. g (concat ts) = concat (map g ts)"
    and st: "\<And>sp s d. g (cirRefreshArea8_store (ShadowPtr pCir) sp s d) =
               map snd (copy_column (\<lambda>a. a) 1 4 d s sp)"
    and rot: "rotateC pCir = 1"
    and le: "x1 pbox \<le> x2 pbox" "y1 pbox \<le> y2 pbox"
    and ss: "0 \<le> ShadowPitch pCir" "ShadowPitch pCir < 2 ^ 31"
    and sy: "0 \<le> round_up 4 (y2 pbox)" "round_up 4 (y2 pbox) * ShadowPitch pCir < 2 ^ 31"
  shows "map_option g (cirRefreshArea8_box pScrn pCir pbox) =
     Some (map snd (rot90_copy (\<lambda>a. a) 1 (P0) (ShadowPitch pCir) (V0)
             (x1 pbox) (x2 pbox) (round_down 4 (y1 pbox)) (round_up 4 (y2 pbox))))"
proof -
  have inner: "map_option g (cirRefreshArea8_count (ShadowPtr pCir) sp (drop_bit 2 (round_up 4 (y2 pbox) - round_down 4 (y1 pbox))) a b) =
      Some (map snd (copy_column (\<lambda>a. a) 1 (nat (round_up 4 (y2 pbox) - round_down 4 (y1 pbox))) (1 * b) (1 * a) sp))" for sp a b
    using height4 [OF le(2)] by (simp add: count8_gen [of g, OF hom st])
  have s0: "in_int (- ShadowPitch pCir)"
    by (rule in_int_neg [OF ss])
  have e_sp: "i32 (i32 (- rotateC pCir) * ShadowPitch pCir) = - ShadowPitch pCir"
    using i32_id [OF s0] by (simp add: rot i32_consts)
  have s1: "in_int ((1 - round_up 4 (y2 pbox)) * - ShadowPitch pCir)"
    by (rule in_int_up [where S = "ShadowPitch pCir"]) (use ss sy in simp_all)
  have e_s1: "i32 ((1 - round_up 4 (y2 pbox)) * - ShadowPitch pCir) = (1 - round_up 4 (y2 pbox)) * - ShadowPitch pCir"
    by (rule i32_id [OF s1])
  show ?thesis
    unfolding cirRefreshArea8_box_def Let_def masks4 round_down_up e_sp e_s1
      outer_gen_snd [of g, OF hom inner,
        where D = "pixel_addr P0 1 (x1 pbox) (V0 - round_up 4 (y2 pbox)) 0" and P = "P0"]
    using rot le by (simp add: rot90_copy_def pixel_addr_def algebra_simps)
qed

lemma box8_rot270:
  fixes g :: "access list \<Rightarrow> 'b list"
  assumes hom: "\<And>ts. g (concat ts) = concat (map g ts)"
    and st: "\<And>sp s d. g (cirRefreshArea8_store (ShadowPtr pCir) sp s d) =
               map \<phi> (copy_column (\<lambda>a. a) 1 4 d s sp)"
    and rot: "rotateC pCir = - 1"
    and le: "x1 pbox \<le> x2 pbox" "y1 pbox \<le> y2 pbox"
    and dx: "x2 pbox \<le> virtualY pScrn" "virtualY pScrn - x2 pbox < 2 ^ 31"
    and dp: "0 \<le> displayWidth pScrn" "(virtualY pScrn - x2 pbox) * (displayWidth pScrn) < 2 ^ 31"
    and ss: "0 \<le> ShadowPitch pCir" "ShadowPitch pCir < 2 ^ 31"
    and sy: "0 \<le> round_down 4 (y1 pbox)" "round_down 4 (y1 pbox) * ShadowPitch pCir < 2 ^ 31"
  shows "map_option g (cirRefreshArea8_box pScrn pCir pbox) =
     Some (map \<phi> (rot270_copy (\<lambda>a. a) 1 (displayWidth pScrn) (ShadowPitch pCir) (virtualY pScrn)
             (x1 pbox) (x2 pbox) (round_down 4 (y1 pbox)) (round_up 4 (y2 pbox))))"
proof -
  have inner: "map_option g (cirRefreshArea8_count (ShadowPtr pCir) sp (drop_bit 2 (round_up 4 (y2 pbox) - round_down 4 (y1 pbox))) a b) =
      Some (map \<phi> (copy_column (\<lambda>a. a) 1 (nat (round_up 4 (y2 pbox) - round_down 4 (y1 pbox))) (1 * b) (1 * a) sp))" for sp a b
    using height4 [OF le(2)] by (simp add: count8_gen [of g, OF hom st])
  have d0: "in_int (virtualY pScrn - x2 pbox)"
    using dx by (simp add: in_int_def)
  have e_d0: "i32 (virtualY pScrn - x2 pbox) = virtualY pScrn - x2 pbox"
    by (rule i32_id [OF d0])
  have d1: "in_int ((virtualY pScrn - x2 pbox) * (displayWidth pScrn))"
    by (rule in_int_prod [where A = "virtualY pScrn - x2 pbox" and B = "displayWidth pScrn"]) (use dx dp in simp_all)
  have e_d1: "i32 ((virtualY pScrn - x2 pbox) * (displayWidth pScrn)) = (virtualY pScrn - x2 pbox) * (displayWidth pScrn)"
    by (rule i32_id [OF d1])
  have s0: "in_int (ShadowPitch pCir)"
    by (rule in_int_pos [OF ss])
  have e_sp: "i32 (i32 (- rotateC pCir) * ShadowPitch pCir) = ShadowPitch pCir"
    using i32_id [OF s0] by (simp add: rot i32_consts)
  have s1: "in_int (round_down 4 (y1 pbox) * ShadowPitch pCir)"
    by (rule in_int_prod [where A = "round_down 4 (y1 pbox)" and B = "ShadowPitch pCir"]) (use ss sy in simp_all)
  have e_s1: "i32 (round_down 4 (y1 pbox) * ShadowPitch pCir) = round_down 4 (y1 pbox) * ShadowPitch pCir"
    by (rule i32_id [OF s1])
  show ?thesis
    unfolding cirRefreshArea8_box_def Let_def masks4 round_down_up e_d0 e_d1 e_sp e_s1
      outer_gen [of g, OF hom inner]
    using rot le by (simp add: rot270_copy_def pixel_addr_def algebra_simps)
qed

lemma box8_rot270_dst:
  fixes g :: "access list \<Rightarrow> int list"
  assumes hom: "\<And>ts. g (concat ts) = concat (map g ts)"
    and st: "\<And>sp s d. g (cirRefreshArea8_store (ShadowPtr pCir) sp s d) =
               map fst (copy_column (\<lambda>a. a) 1 4 d s sp)"
    and rot: "rotateC pCir = - 1"
    and le: "x1 pbox \<le> x2 pbox" "y1 pbox \<le> y2 pbox"
    and dx: "x2 pbox \<le> virtualY pScrn" "virtualY pScrn - x2 pbox < 2 ^ 31"
    and dp: "0 \<le> displayWidth pScrn" "(virtualY pScrn - x2 pbox) * (displayWidth pScrn) < 2 ^ 31"
  shows "map_option g (cirRefreshArea8_box pScrn pCir pbox) =
     Some (map fst (rot270_copy (\<lambda>a. a) 1 (displayWidth pScrn) (SP0) (virtualY pScrn)
             (x1 pbox) (x2 pbox) (round_down 4 (y1 pbox)) (round_up 4 (y2 pbox))))"
proof -
  have inner: "map_option g (cirRefreshArea8_count (ShadowPtr pCir) sp (drop_bit 2 (round_up 4 (y2 pbox) - round_down 4 (y1 pbox))) a b) =
      Some (map fst (copy_column (\<lambda>a. a) 1 (nat (round_up 4 (y2 pbox) - round_down 4 (y1 pbox))) (1 * b) (1 * a) sp))" for sp a b
    using height4 [OF le(2)] by (simp add: count8_gen [of g, OF hom st])
  have d0: "in_int (virtualY pScrn - x2 pbox)"
    using dx by (simp add: in_int_def)
  have e_d0: "i32 (virtualY pScrn - x2 pbox) = virtualY pScrn - x2 pbox"
    by (rule i32_id [OF d0])
  have d1: "in_int ((virtualY pScrn - x2 pbox) * (displayWidth pScrn))"
    by (rule in_int_prod [where A = "virtualY pScrn - x2 pbox" and B = "displayWidth pScrn"]) (use dx dp in simp_all)
  have e_d1: "i32 ((virtualY pScrn - x2 pbox) * (displayWidth pScrn)) = (virtualY pScrn - x2 pbox) * (displayWidth pScrn)"
    by (rule i32_id [OF d1])
  show ?thesis
    unfolding cirRefreshArea8_box_def Let_def masks4 round_down_up e_d0 e_d1
      outer_gen_fst [of g, OF hom inner,
        where S = "pixel_addr SP0 1 (round_down 4 (y1 pbox)) (x2 pbox - 1) 0" and sc = "- 1" and sq = "SP0"]
    using rot le by (simp add: rot270_copy_def pixel_addr_def algebra_simps)
qed

lemma box8_rot270_src:
  fixes g :: "access list \<Rightarrow> int list"
  assumes hom: "\<And>ts. g (concat ts) = concat (map g ts)"
    and st: "\<And>sp s d. g (cirRefreshArea8_store (ShadowPtr pCir) sp s d) =
               map snd (copy_column (\<lambda>a. a) 1 4 d s sp)"
    and rot: "rotateC pCir = - 1"
    and le: "x1 pbox \<le> x2 pbox" "y1 pbox \<le> y2 pbox"
    and ss: "0 \<le> ShadowPitch pCir" "ShadowPitch pCir < 2 ^ 31"
    and sy: "0 \<le> round_down 4 (y1 pbox)" "round_down 4 (y1 pbox) * ShadowPitch pCir < 2 ^ 31"
  shows "map_option g (cirRefreshArea8_box pScrn pCir pbox) =
     Some (map snd (rot270_copy (\<lambda>a. a) 1 (P0) (ShadowPitch pCir) (H0)
             (x1 pbox) (x2 pbox) (round_down 4 (y1 pbox)) (round_up 4 (y2 pbox))))"
proof -
  have inner: "map_option g (cirRefreshArea8_count (ShadowPtr pCir) sp (drop_bit 2 (round_up 4 (y2 pbox) - round_down 4 (y1 pbox))) a b) =
      Some (map snd (copy_column (\<lambda>a. a) 1 (nat (round_up 4 (y2 pbox) - round_down 4 (y1 pbox))) (1 * b) (1 * a) sp))" for sp a b
    using height4 [OF le(2)] by (simp add: count8_gen [of g, OF hom st])
  have s0: "in_int (ShadowPitch pCir)"
    by (rule in_int_pos [OF ss])
  have e_sp: "i32 (i32 (- rotateC pCir) * ShadowPitch pCir) = ShadowPitch pCir"
    using i32_id [OF s0] by (simp add: rot i32_consts)
  have s1: "in_int (round_down 4 (y1 pbox) * ShadowPitch pCir)"
    by (rule in_int_prod [where A = "round_down 4 (y1 pbox)" and B = "ShadowPitch pCir"]) (use ss sy in simp_all)
  have e_s1: "i32 (round_down 4 (y1 pbox) * ShadowPitch pCir) = round_down 4 (y1 pbox) * ShadowPitch pCir"
    by (rule i32_id [OF s1])
  show ?thesis
    unfolding cirRefreshArea8_box_def Let_def masks4 round_down_up e_sp e_s1
      outer_gen_snd [of g, OF hom inner,
        where D = "pixel_addr P0 1 (H0 - x2 pbox) (round_down 4 (y1 pbox)) 0" and P = "P0"]
    using rot le by (simp add: rot270_copy_def pixel_addr_def algebra_simps)
qed

lemma box16_rot90:
  fixes g :: "access list \<Rightarrow> 'b list"
  assumes hom: "\<And>ts. g (concat ts) = concat (map g ts)"
    and st: "\<And>sp s d. g (cirRefreshArea16_store (ShadowPtr pCir) sp s d) =
               map \<phi> (copy_column (\<lambda>a. a) 2 2 d (2 * s) (2 * sp))"
    and rot: "rotateC pCir = 1"
    and le: "x1 pbox \<le> x2 pbox" "y1 pbox \<le> y2 pbox"
    and dx: "0 \<le> x1 pbox"
    and dp: "0 \<le> 2 * displayWidth pScrn" "x1 pbox * (2 * displayWidth pScrn) < 2 ^ 31"
    and dv: "2 dvd ShadowPitch pCir"
    and ss: "0 \<le> ShadowPitch pCir" "ShadowPitch pCir < 2 ^ 31"
    and sy: "0 \<le> round_up 2 (y2 pbox)" "round_up 2 (y2 pbox) * ShadowPitch pCir < 2 ^ 31"
  shows "map_option g (cirRefreshArea16_box pScrn pCir pbox) =
     Some (map \<phi> (rot90_copy (\<lambda>a. a) 2 (2 * displayWidth pScrn) (ShadowPitch pCir) (virtualX pScrn)
             (x1 pbox) (x2 pbox) (round_down 2 (y1 pbox)) (round_up 2 (y2 pbox))))"
proof -
  have inner: "map_option g (cirRefreshArea16_count (ShadowPtr pCir) sp (drop_bit 1 (round_up 2 (y2 pbox) - round_down 2 (y1 pbox))) a (2 * b)) =
      Some (map \<phi> (copy_column (\<lambda>a. a) 2 (nat (round_up 2 (y2 pbox) - round_down 2 (y1 pbox))) (2 * b) (2 * a) (2 * sp)))" for sp a b
    using height2 [OF le(2)] by (simp add: count16_gen [of g, OF hom st])
  have d1: "in_int (x1 pbox * (displayWidth pScrn))"
    by (rule in_int_prod [where A = "x1 pbox" and B = "2 * displayWidth pScrn"]) (use dx dp in simp_all)
  have e_d1: "i32 (x1 pbox * (displayWidth pScrn)) = x1 pbox * (displayWidth pScrn)"
    by (rule i32_id [OF d1])
  have s0: "in_int (- ShadowPitch pCir)"
    by (rule in_int_neg [OF ss])
  have e_sp: "i32 (i32 (- rotateC pCir) * ShadowPitch pCir) = - ShadowPitch pCir"
    using i32_id [OF s0] by (simp add: rot i32_consts)
  obtain q where q: "ShadowPitch pCir = 2 * q"
    using dv by (elim dvdE)
  have q0: "0 \<le> q" "q \<le> ShadowPitch pCir"
    using ss(1) unfolding q by simp_all
  have e_sh: "drop_bit 1 (- ShadowPitch pCir) = - q"
    unfolding q by (simp add: drop_bit_eq_div)
  have s1: "in_int ((1 - round_up 2 (y2 pbox)) * - q)"
    by (rule in_int_up [where S = "ShadowPitch pCir"]) (use ss sy q0 in simp_all)
  have e_s1: "i32 ((1 - round_up 2 (y2 pbox)) * - q) = (1 - round_up 2 (y2 pbox)) * - q"
    by (rule i32_id [OF s1])
  show ?thesis
    unfolding cirRefreshArea16_box_def Let_def masks2 round_down_up e_d1 e_sp e_sh e_s1
      outer_gen [of g, OF hom inner]
    using rot le by (simp add: rot90_copy_def pixel_addr_def q algebra_simps)
qed

lemma box16_rot90_dst:
  fixes g :: "access list \<Rightarrow> int list"
  assumes hom: "\<And>ts. g (concat ts) = concat (map g ts)"
    and st: "\<And>sp s d. g (cirRefreshArea16_store (ShadowPtr pCir) sp s d) =
               map fst (copy_column (\<lambda>a. a) 2 2 d (2 * s) (2 * sp))"
    and rot: "rotateC pCir = 1"
    and le: "x1 pbox \<le> x2 pbox" "y1 pbox \<le> y2 pbox"
    and dx: "0 \<le> x1 pbox"
    and dp: "0 \<le> 2 * displayWidth pScrn" "x1 pbox * (2 * displayWidth pScrn) < 2 ^ 31"
  shows "map_option g (cirRefreshArea16_box pScrn pCir pbox) =
     Some (map fst (rot90_copy (\<lambda>a. a) 2 (2 * displayWidth pScrn) (SP0) (virtualX pScrn)
             (x1 pbox) (x2 pbox) (round_down 2 (y1 pbox)) (round_up 2 (y2 pbox))))"
proof -
  have inner: "map_option g (cirRefreshArea16_count (ShadowPtr pCir) sp (drop_bit 1 (round_up 2 (y2 pbox) - round_down 2 (y1 pbox))) a (2 * b)) =
      Some (map fst (copy_column (\<lambda>a. a) 2 (nat (round_up 2 (y2 pbox) - round_down 2 (y1 pbox))) (2 * b) (2 * a) (2 * sp)))" for sp a b
    using height2 [OF le(2)] by (simp add: count16_gen [of g, OF hom st])
  have d1: "in_int (x1 pbox * (displayWidth pScrn))"
    by (rule in_int_prod [where A = "x1 pbox" and B = "2 * displayWidth pScrn"]) (use dx dp in simp_all)
  have e_d1: "i32 (x1 pbox * (displayWidth pScrn)) = x1 pbox * (displayWidth pScrn)"
    by (rule i32_id [OF d1])
  show ?thesis
    unfolding cirRefreshArea16_box_def Let_def masks2 round_down_up e_d1
      outer_gen_fst [of g, OF hom inner,
        where S = "pixel_addr SP0 2 (round_up 2 (y2 pbox) - 1) (x1 pbox) 0" and sc = "2" and sq = "- SP0"]
    using rot le by (simp add: rot90_copy_def pixel_addr_def algebra_simps)
qed

lemma box16_rot90_src:
  fixes g :: "access list \<Rightarrow> int list"
  assumes hom: "\<And>ts. g (concat ts) = concat (map g ts)"
    and st: "\<And>sp s d. g (cirRefreshArea16_store (ShadowPtr pCir) sp s d) =
               map snd (copy_column (\<lambda>a. a) 2 2 d (2 * s) (2 * sp))"
    and rot: "rotateC pCir = 1"
    and le: "x1 pbox \<le> x2 pbox" "y1 pbox \<le> y2 pbox"
    and dv: "2 dvd ShadowPitch pCir"
    and ss: "0 \<le> ShadowPitch pCir" "ShadowPitch pCir < 2 ^ 31"
    and sy: "0 \<le> round_up 2 (y2 pbox)" "round_up 2 (y2 pbox) * ShadowPitch pCir < 2 ^ 31"
  shows "map_option g (cirRefreshArea16_box pScrn pCir pbox) =
     Some (map snd (rot90_copy (\<lambda>a. a) 2 (P0) (ShadowPitch pCir) (V0)
             (x1 pbox) (x2 pbox) (round_down 2 (y1 pbox)) (round_up 2 (y2 pbox))))"
proof -
  have inner: "map_option g (cirRefreshArea16_count (ShadowPtr pCir) sp (drop_bit 1 (round_up 2 (y2 pbox) - round_down 2 (y1 pbox))) a (2 * b)) =
      Some (map snd (copy_column (\<lambda>a. a) 2 (nat (round_up 2 (y2 pbox) - round_down 2 (y1 pbox))) (2 * b) (2 * a) (2 * sp)))" for sp a b
    using height2 [OF le(2)] by (simp add: count16_gen [of g, OF hom st])
  have s0: "in_int (- ShadowPitch pCir)"
    by (rule in_int_neg [OF ss])
  have e_sp: "i32 (i32 (- rotateC pCir) * ShadowPitch pCir) = - ShadowPitch pCir"
    using i32_id [OF s0] by (simp add: rot i32_consts)
  obtain q where q: "ShadowPitch pCir = 2 * q"
    using dv by (elim dvdE)
  have q0: "0 \<le> q" "q \<le> ShadowPitch pCir"
    using ss(1) unfolding q by simp_all
  have e_sh: "drop_bit 1 (- ShadowPitch pCir) = - q"
    unfolding q by (simp add: drop_bit_eq_div)
  have s1: "in_int ((1 - round_up 2 (y2 pbox)) * - q)"
    by (rule in_int_up [where S = "ShadowPitch pCir"]) (use ss sy q0 in simp_all)
  have e_s1: "i32 ((1 - round_up 2 (y2 pbox)) * - q) = (1 - round_up 2 (y2 pbox)) * - q"
    by (rule i32_id [OF s1])
  show ?thesis
    unfolding cirRefreshArea16_box_def Let_def masks2 round_down_up e_sp e_sh e_s1
      outer_gen_snd [of g, OF hom inner,
        where D = "pixel_addr P0 2 (x1 pbox) (V0 - round_up 2 (y2 pbox)) 0" and P = "P0"]
    using rot le by (simp add: rot90_copy_def pixel_addr_def q algebra_simps)
qed

lemma box16_rot270:
  fixes g :: "access list \<Rightarrow> 'b list"
  assumes hom: "\<And>ts. g (concat ts) = concat (map g ts)"
    and st: "\<And>sp s d. g (cirRefreshArea16_store (ShadowPtr pCir) sp s d) =
               map \<phi> (copy_column (\<lambda>a. a) 2 2 d (2 * s) (2 * sp))"
    and rot: "rotateC pCir = - 1"
    and le: "x1 pbox \<le> x2 pbox" "y1 pbox \<le> y2 pbox"
    and dx: "x2 pbox \<le> virtualY pScrn" "virtualY pScrn - x2 pbox < 2 ^ 31"
    and dp: "0 \<le> 2 * displayWidth pScrn" "(virtualY pScrn - x2 pbox) * (2 * displayWidth pScrn) < 2 ^ 31"
    and dv: "2 dvd ShadowPitch pCir"
    and ss: "0 \<le> ShadowPitch pCir" "ShadowPitch pCir < 2 ^ 31"
    and sy: "0 \<le> round_down 2 (y1 pbox)" "round_down 2 (y1 pbox) * ShadowPitch pCir < 2 ^ 31"
  shows "map_option g (cirRefreshArea16_box pScrn pCir pbox) =
     Some (map \<phi> (rot270_copy (\<lambda>a. a) 2 (2 * displayWidth pScrn) (ShadowPitch pCir) (virtualY pScrn)
             (x1 pbox) (x2 pbox) (round_down 2 (y1 pbox)) (round_up 2 (y2 pbox))))"
proof -
  have inner: "map_option g (cirRefreshArea16_count (ShadowPtr pCir) sp (drop_bit 1 (round_up 2 (y2 pbox) - round_down 2 (y1 pbox))) a (2 * b)) =
      Some (map \<phi> (copy_column (\<lambda>a. a) 2 (nat (round_up 2 (y2 pbox) - round_down 2 (y1 pbox))) (2 * b) (2 * a) (2 * sp)))" for sp a b
    using height2 [OF le(2)] by (simp add: count16_gen [of g, OF hom st])
  have d0: "in_int (virtualY pScrn - x2 pbox)"
    using dx by (simp add: in_int_def)
  have e_d0: "i32 (virtualY pScrn - x2 pbox) = virtualY pScrn - x2 pbox"
    by (rule i32_id [OF d0])
  have d1: "in_int ((virtualY pScrn - x2 pbox) * (displayWidth pScrn))"
    by (rule in_int_prod [where A = "virtualY pScrn - x2 pbox" and B = "2 * displayWidth pScrn"]) (use dx dp in simp_all)
  have e_d1: "i32 ((virtualY pScrn - x2 pbox) * (displayWidth pScrn)) = (virtualY pScrn - x2 pbox) * (displayWidth pScrn)"
    by (rule i32_id [OF d1])
  have s0: "in_int (ShadowPitch pCir)"
    by (rule in_int_pos [OF ss])
  have e_sp: "i32 (i32 (- rotateC pCir) * ShadowPitch pCir) = ShadowPitch pCir"
    using i32_id [OF s0] by (simp add: rot i32_consts)
  obtain q where q: "ShadowPitch pCir = 2 * q"
    using dv by (elim dvdE)
  have q0: "0 \<le> q" "q \<le> ShadowPitch pCir"
    using ss(1) unfolding q by simp_all
  have e_sh: "drop_bit 1 (ShadowPitch pCir) = q"
    unfolding q by (simp add: drop_bit_eq_div)
  have s1: "in_int (round_down 2 (y1 pbox) * q)"
    by (rule in_int_prod [where A = "round_down 2 (y1 pbox)" and B = "ShadowPitch pCir"]) (use ss sy q0 in simp_all)
  have e_s1: "i32 (round_down 2 (y1 pbox) * q) = round_down 2 (y1 pbox) * q"
    by (rule i32_id [OF s1])
  show ?thesis
    unfolding cirRefreshArea16_box_def Let_def masks2 round_down_up e_d0 e_d1 e_sp e_sh e_s1
      outer_gen [of g, OF hom inner]
    using rot le by (simp add: rot270_copy_def pixel_addr_def q algebra_simps)
qed

lemma box16_rot270_dst:
  fixes g :: "access list \<Rightarrow> int list"
  assumes hom: "\<And>ts. g (concat ts) = concat (map g ts)"
    and st: "\<And>sp s d. g (cirRefreshArea16_store (ShadowPtr pCir) sp s d) =
               map fst (copy_column (\<lambda>a. a) 2 2 d (2 * s) (2 * sp))"
    and rot: "rotateC pCir = - 1"
    and le: "x1 pbox \<le> x2 pbox" "y1 pbox \<le> y2 pbox"
    and dx: "x2 pbox \<le> virtualY pScrn" "virtualY pScrn - x2 pbox < 2 ^ 31"
    and dp: "0 \<le> 2 * displayWidth pScrn" "(virtualY pScrn - x2 pbox) * (2 * displayWidth pScrn) < 2 ^ 31"
  shows "map_option g (cirRefreshArea16_box pScrn pCir pbox) =
     Some (map fst (rot270_copy (\<lambda>a. a) 2 (2 * displayWidth pScrn) (SP0) (virtualY pScrn)
             (x1 pbox) (x2 pbox) (round_down 2 (y1 pbox)) (round_up 2 (y2 pbox))))"
proof -
  have inner: "map_option g (cirRefreshArea16_count (ShadowPtr pCir) sp (drop_bit 1 (round_up 2 (y2 pbox) - round_down 2 (y1 pbox))) a (2 * b)) =
      Some (map fst (copy_column (\<lambda>a. a) 2 (nat (round_up 2 (y2 pbox) - round_down 2 (y1 pbox))) (2 * b) (2 * a) (2 * sp)))" for sp a b
    using height2 [OF le(2)] by (simp add: count16_gen [of g, OF hom st])
  have d0: "in_int (virtualY pScrn - x2 pbox)"
    using dx by (simp add: in_int_def)
  have e_d0: "i32 (virtualY pScrn - x2 pbox) = virtualY pScrn - x2 pbox"
    by (rule i32_id [OF d0])
  have d1: "in_int ((virtualY pScrn - x2 pbox) * (displayWidth pScrn))"
    by (rule in_int_prod [where A = "virtualY pScrn - x2 pbox" and B = "2 * displayWidth pScrn"]) (use dx dp in simp_all)
  have e_d1: "i32 ((virtualY pScrn - x2 pbox) * (displayWidth pScrn)) = (virtualY pScrn - x2 pbox) * (displayWidth pScrn)"
    by (rule i32_id [OF d1])
  show ?thesis
    unfolding cirRefreshArea16_box_def Let_def masks2 round_down_up e_d0 e_d1
      outer_gen_fst [of g, OF hom inner,
        where S = "pixel_addr SP0 2 (round_down 2 (y1 pbox)) (x2 pbox - 1) 0" and sc = "- 2" and sq = "SP0"]
    using rot le by (simp add: rot270_copy_def pixel_addr_def algebra_simps)
qed

lemma box16_rot270_src:
  fixes g :: "access list \<Rightarrow> int list"
  assumes hom: "\<And>ts. g (concat ts) = concat (map g ts)"
    and st: "\<And>sp s d. g (cirRefreshArea16_store (ShadowPtr pCir) sp s d) =
               map snd (copy_column (\<lambda>a. a) 2 2 d (2 * s) (2 * sp))"
    and rot: "rotateC pCir = - 1"
    and le: "x1 pbox \<le> x2 pbox" "y1 pbox \<le> y2 pbox"
    and dv: "2 dvd ShadowPitch pCir"
    and ss: "0 \<le> ShadowPitch pCir" "ShadowPitch pCir < 2 ^ 31"
    and sy: "0 \<le> round_down 2 (y1 pbox)" "round_down 2 (y1 pbox) * ShadowPitch pCir < 2 ^ 31"
  shows "map_option g (cirRefreshArea16_box pScrn pCir pbox) =
     Some (map snd (rot270_copy (\<lambda>a. a) 2 (P0) (ShadowPitch pCir) (H0)
             (x1 pbox) (x2 pbox) (round_down 2 (y1 pbox)) (round_up 2 (y2 pbox))))"
proof -
  have inner: "map_option g (cirRefreshArea16_count (ShadowPtr pCir) sp (drop_bit 1 (round_up 2 (y2 pbox) - round_down 2 (y1 pbox))) a (2 * b)) =
      Some (map snd (copy_column (\<lambda>a. a) 2 (nat (round_up 2 (y2 pbox) - round_down 2 (y1 pbox))) (2 * b) (2 * a) (2 * sp)))" for sp a b
    using height2 [OF le(2)] by (simp add: count16_gen [of g, OF hom st])
  have s0: "in_int (ShadowPitch pCir)"
    by (rule in_int_pos [OF ss])
  have e_sp: "i32 (i32 (- rotateC pCir) * ShadowPitch pCir) = ShadowPitch pCir"
    using i32_id [OF s0] by (simp add: rot i32_consts)
  obtain q where q: "ShadowPitch pCir = 2 * q"
    using dv by (elim dvdE)
  have q0: "0 \<le> q" "q \<le> ShadowPitch pCir"
    using ss(1) unfolding q by simp_all
  have e_sh: "drop_bit 1 (ShadowPitch pCir) = q"
    unfolding q by (simp add: drop_bit_eq_div)
  have s1: "in_int (round_down 2 (y1 pbox) * q)"
    by (rule in_int_prod [where A = "round_down 2 (y1 pbox)" and B = "ShadowPitch pCir"]) (use ss sy q0 in simp_all)
  have e_s1: "i32 (round_down 2 (y1 pbox) * q) = round_down 2 (y1 pbox) * q"
    by (rule i32_id [OF s1])
  show ?thesis
    unfolding cirRefreshArea16_box_def Let_def masks2 round_down_up e_sp e_sh e_s1
      outer_gen_snd [of g, OF hom inner,
        where D = "pixel_addr P0 2 (H0 - x2 pbox) (round_down 2 (y1 pbox)) 0" and P = "P0"]
    using rot le by (simp add: rot270_copy_def pixel_addr_def q algebra_simps)
qed

lemma box24_rot90:
  fixes g :: "access list \<Rightarrow> 'b list"
  assumes hom: "\<And>ts. g (concat ts) = concat (map g ts)"
    and st: "\<And>sp s d. g (cirRefreshArea24_store (ShadowPtr pCir) sp s d) =
               map \<phi> (copy_column (\<lambda>a. a) 3 4 d s sp)"
    and rot: "rotateC pCir = 1"
    and le: "x1 pbox \<le> x2 pbox" "y1 pbox \<le> y2 pbox"
    and dx: "0 \<le> x1 pbox"
    and dp: "0 \<le> BitmapBytePad (i32 (displayWidth pScrn * 24))" "x1 pbox * (BitmapBytePad (i32 (displayWidth pScrn * 24))) < 2 ^ 31"
    and dy: "0 \<le> round_up 4 (y2 pbox)" "round_up 4 (y2 pbox) \<le> virtualX pScrn" "virtualX pScrn * 3 < 2 ^ 31"
    and ss: "0 \<le> ShadowPitch pCir" "ShadowPitch pCir < 2 ^ 31"
    and sy: "0 \<le> round_up 4 (y2 pbox)" "round_up 4 (y2 pbox) * ShadowPitch pCir < 2 ^ 31"
    and sx: "0 \<le> x1 pbox" "x1 pbox * 3 < 2 ^ 31"
  shows "map_option g (cirRefreshArea24_box BitmapBytePad pScrn pCir pbox) =
     Some (map \<phi> (rot90_copy (\<lambda>a. a) 3 (BitmapBytePad (i32 (displayWidth pScrn * 24))) (ShadowPitch pCir) (virtualX pScrn)
             (x1 pbox) (x2 pbox) (round_down 4 (y1 pbox)) (round_up 4 (y2 pbox))))"
proof -
  have inner: "map_option g (cirRefreshArea24_count (ShadowPtr pCir) sp (drop_bit 2 (round_up 4 (y2 pbox) - round_down 4 (y1 pbox))) a b) =
      Some (map \<phi> (copy_column (\<lambda>a. a) 3 (nat (round_up 4 (y2 pbox) - round_down 4 (y1 pbox))) (1 * b) (1 * a) sp))" for sp a b
    using height4 [OF le(2)] by (simp add: count24_gen [of g, OF hom st])
  have d1: "in_int (x1 pbox * (BitmapBytePad (i32 (displayWidth pScrn * 24))))"
    by (rule in_int_prod [where A = "x1 pbox" and B = "BitmapBytePad (i32 (displayWidth pScrn * 24))"]) (use dx dp in simp_all)
  have e_d1: "i32 (x1 pbox * (BitmapBytePad (i32 (displayWidth pScrn * 24)))) = x1 pbox * (BitmapBytePad (i32 (displayWidth pScrn * 24)))"
    by (rule i32_id [OF d1])
  have d2: "in_int (virtualX pScrn - round_up 4 (y2 pbox))"
    using dy by (simp add: in_int_def)
  have e_d2: "i32 (virtualX pScrn - round_up 4 (y2 pbox)) = virtualX pScrn - round_up 4 (y2 pbox)"
    by (rule i32_id [OF d2])
  have d3: "in_int ((virtualX pScrn - round_up 4 (y2 pbox)) * 3)"
    using dy by (simp add: in_int_def)
  have e_d3: "i32 ((virtualX pScrn - round_up 4 (y2 pbox)) * 3) = (virtualX pScrn - round_up 4 (y2 pbox)) * 3"
    by (rule i32_id [OF d3])
  have s0: "in_int (- ShadowPitch pCir)"
    by (rule in_int_neg [OF ss])
  have e_sp: "i32 (i32 (- rotateC pCir) * ShadowPitch pCir) = - ShadowPitch pCir"
    using i32_id [OF s0] by (simp add: rot i32_consts)
  have s1: "in_int ((1 - round_up 4 (y2 pbox)) * - ShadowPitch pCir)"
    by (rule in_int_up [where S = "ShadowPitch pCir"]) (use ss sy in simp_all)
  have e_s1: "i32 ((1 - round_up 4 (y2 pbox)) * - ShadowPitch pCir) = (1 - round_up 4 (y2 pbox)) * - ShadowPitch pCir"
    by (rule i32_id [OF s1])
  have s2: "in_int (x1 pbox * 3)"
    using sx by (simp add: in_int_def)
  have e_s2: "i32 (x1 pbox * 3) = x1 pbox * 3"
    by (rule i32_id [OF s2])
  have e_st: "i32 (rotateC pCir * 3) = 3"
    by (simp add: rot i32_consts)
  show ?thesis
    unfolding cirRefreshArea24_box_def Let_def masks4 round_down_up e_d1 e_d2 e_d3 e_sp e_s1 e_s2 e_st
      outer_gen [of g, OF hom inner]
    using rot le by (simp add: rot90_copy_def pixel_addr_def algebra_simps)
qed

lemma box24_rot90_dst:
  fixes g :: "access list \<Rightarrow> int list"
  assumes hom: "\<And>ts. g (concat ts) = concat (map g ts)"
    and st: "\<And>sp s d. g (cirRefreshArea24_store (ShadowPtr pCir) sp s d) =
               map fst (copy_column (\<lambda>a. a) 3 4 d s sp)"
    and rot: "rotateC pCir = 1"
    and le: "x1 pbox \<le> x2 pbox" "y1 pbox \<le> y2 pbox"
    and dx: "0 \<le> x1 pbox"
    and dp: "0 \<le> BitmapBytePad (i32 (displayWidth pScrn * 24))" "x1 pbox * (BitmapBytePad (i32 (displayWidth pScrn * 24))) < 2 ^ 31"
    and dy: "0 \<le> round_up 4 (y2 pbox)" "round_up 4 (y2 pbox) \<le> virtualX pScrn" "virtualX pScrn * 3 < 2 ^ 31"
  shows "map_option g (cirRefreshArea24_box BitmapBytePad pScrn pCir pbox) =
     Some (map fst (rot90_copy (\<lambda>a. a) 3 (BitmapBytePad (i32 (displayWidth pScrn * 24))) (SP0) (virtualX pScrn)
             (x1 pbox) (x2 pbox) (round_down 4 (y1 pbox)) (round_up 4 (y2 pbox))))"
proof -
  have inner: "map_option g (cirRefreshArea24_count (ShadowPtr pCir) sp (drop_bit 2 (round_up 4 (y2 pbox) - round_down 4 (y1 pbox))) a b) =
      Some (map fst (copy_column (\<lambda>a. a) 3 (nat (round_up 4 (y2 pbox) - round_down 4 (y1 pbox))) (1 * b) (1 * a) sp))" for sp a b
    using height4 [OF le(2)] by (simp add: count24_gen [of g, OF hom st])
  have d1: "in_int (x1 pbox * (BitmapBytePad (i32 (displayWidth pScrn * 24))))"
    by (rule in_int_prod [where A = "x1 pbox" and B = "BitmapBytePad (i32 (displayWidth pScrn * 24))"]) (use dx dp in simp_all)
  have e_d1: "i32 (x1 pbox * (BitmapBytePad (i32 (displayWidth pScrn * 24)))) = x1 pbox * (BitmapBytePad (i32 (displayWidth pScrn * 24)))"
    by (rule i32_id [OF d1])
  have d2: "in_int (virtualX pScrn - round_up 4 (y2 pbox))"
    using dy by (simp add: in_int_def)
  have e_d2: "i32 (virtualX pScrn - round_up 4 (y2 pbox)) = virtualX pScrn - round_up 4 (y2 pbox)"
    by (rule i32_id [OF d2])
  have d3: "in_int ((virtualX pScrn - round_up 4 (y2 pbox)) * 3)"
    using dy by (simp add: in_int_def)
  have e_d3: "i32 ((virtualX pScrn - round_up 4 (y2 pbox)) * 3) = (virtualX pScrn - round_up 4 (y2 pbox)) * 3"
    by (rule i32_id [OF d3])
  show ?thesis
    unfolding cirRefreshArea24_box_def Let_def masks4 round_down_up e_d1 e_d2 e_d3
      outer_gen_fst [of g, OF hom inner,
        where S = "pixel_addr SP0 3 (round_up 4 (y2 pbox) - 1) (x1 pbox) 0" and sc = "3" and sq = "- SP0"]
    using rot le by (simp add: rot90_copy_def pixel_addr_def algebra_simps)
qed

lemma box24_rot90_src:
  fixes g :: "access list \<Rightarrow> int list"
  assumes hom: "\<And>ts. g (concat ts) = concat (map g ts)"
    and st: "\<And>sp s d. g (cirRefreshArea24_store (ShadowPtr pCir) sp s d) =
               map snd (copy_column (\<lambda>a. a) 3 4 d s sp)"
    and rot: "rotateC pCir = 1"
    and le: "x1 pbox \<le> x2 pbox" "y1 pbox \<le> y2 pbox"
    and ss: "0 \<le> ShadowPitch pCir" "ShadowPitch pCir < 2 ^ 31"
    and sy: "0 \<le> round_up 4 (y2 pbox)" "round_up 4 (y2 pbox) * ShadowPitch pCir < 2 ^ 31"
    and sx: "0 \<le> x1 pbox" "x1 pbox * 3 < 2 ^ 31"
  shows "map_option g (cirRefreshArea24_box BitmapBytePad pScrn pCir pbox) =
     Some (map snd (rot90_copy (\<lambda>a. a) 3 (P0) (ShadowPitch pCir) (V0)
             (x1 pbox) (x2 pbox) (round_down 4 (y1 pbox)) (round_up 4 (y2 pbox))))"
proof -
  have inner: "map_option g (cirRefreshArea24_count (ShadowPtr pCir) sp (drop_bit 2 (round_up 4 (y2 pbox) - round_down 4 (y1 pbox))) a b) =
      Some (map snd (copy_column (\<lambda>a. a) 3 (nat (round_up 4 (y2 pbox) - round_down 4 (y1 pbox))) (1 * b) (1 * a) sp))" for sp a b
    using height4 [OF le(2)] by (simp add: count24_gen [of g, OF hom st])
  have s0: "in_int (- ShadowPitch pCir)"
    by (rule in_int_neg [OF ss])
  have e_sp: "i32 (i32 (- rotateC pCir) * ShadowPitch pCir) = - ShadowPitch pCir"
    using i32_id [OF s0] by (simp add: rot i32_consts)
  have s1: "in_int ((1 - round_up 4 (y2 pbox)) * - ShadowPitch pCir)"
    by (rule in_int_up [where S = "ShadowPitch pCir"]) (use ss sy in simp_all)
  have e_s1: "i32 ((1 - round_up 4 (y2 pbox)) * - ShadowPitch pCir) = (1 - round_up 4 (y2 pbox)) * - ShadowPitch pCir"
    by (rule i32_id [OF s1])
  have s2: "in_int (x1 pbox * 3)"
    using sx by (simp add: in_int_def)
  have e_s2: "i32 (x1 pbox * 3) = x1 pbox * 3"
    by (rule i32_id [OF s2])
  have e_st: "i32 (rotateC pCir * 3) = 3"
    by (simp add: rot i32_consts)
  show ?thesis
    unfolding cirRefreshArea24_box_def Let_def masks4 round_down_up e_sp e_s1 e_s2 e_st
      outer_gen_snd [of g, OF hom inner,
        where D = "pixel_addr P0 3 (x1 pbox) (V0 - round_up 4 (y2 pbox)) 0" and P = "P0"]
    using rot le by (simp add: rot90_copy_def pixel_addr_def algebra_simps)
qed

lemma box24_rot270:
  fixes g :: "access list \<Rightarrow> 'b list"
  assumes hom: "\<And>ts. g (concat ts) = concat (map g ts)"
    and st: "\<And>sp s d. g (cirRefreshArea24_store (ShadowPtr pCir) sp s d) =
               map \<phi> (copy_column (\<lambda>a. a) 3 4 d s sp)"
    and rot: "rotateC pCir = - 1"
    and le: "x1 pbox \<le> x2 pbox" "y1 pbox \<le> y2 pbox"
    and dx: "x2 pbox \<le> virtualY pScrn" "virtualY pScrn - x2 pbox < 2 ^ 31"
    and dp: "0 \<le> BitmapBytePad (i32 (displayWidth pScrn * 24))" "(virtualY pScrn - x2 pbox) * (BitmapBytePad (i32 (displayWidth pScrn * 24))) < 2 ^ 31"
    and dy: "0 \<le> round_down 4 (y1 pbox)" "round_down 4 (y1 pbox) * 3 < 2 ^ 31"
    and ss: "0 \<le> ShadowPitch pCir" "ShadowPitch pCir < 2 ^ 31"
    and sy: "0 \<le> round_down 4 (y1 pbox)" "round_down 4 (y1 pbox) * ShadowPitch pCir < 2 ^ 31"
    and sx: "0 \<le> x2 pbox" "x2 pbox * 3 < 2 ^ 31"
  shows "map_option g (cirRefreshArea24_box BitmapBytePad pScrn pCir pbox) =
     Some (map \<phi> (rot270_copy (\<lambda>a. a) 3 (BitmapBytePad (i32 (displayWidth pScrn * 24))) (ShadowPitch pCir) (virtualY pScrn)
             (x1 pbox) (x2 pbox) (round_down 4 (y1 pbox)) (round_up 4 (y2 pbox))))"
proof -
  have inner: "map_option g (cirRefreshArea24_count (ShadowPtr pCir) sp (drop_bit 2 (round_up 4 (y2 pbox) - round_down 4 (y1 pbox))) a b) =
      Some (map \<phi> (copy_column (\<lambda>a. a) 3 (nat (round_up 4 (y2 pbox) - round_down 4 (y1 pbox))) (1 * b) (1 * a) sp))" for sp a b
    using height4 [OF le(2)] by (simp add: count24_gen [of g, OF hom st])
  have d0: "in_int (virtualY pScrn - x2 pbox)"
    using dx by (simp add: in_int_def)
  have e_d0: "i32 (virtualY pScrn - x2 pbox) = virtualY pScrn - x2 pbox"
    by (rule i32_id [OF d0])
  have d1: "in_int ((virtualY pScrn - x2 pbox) * (BitmapBytePad (i32 (displayWidth pScrn * 24))))"
    by (rule in_int_prod [where A = "virtualY pScrn - x2 pbox" and B = "BitmapBytePad (i32 (displayWidth pScrn * 24))"]) (use dx dp in simp_all)
  have e_d1: "i32 ((virtualY pScrn - x2 pbox) * (BitmapBytePad (i32 (displayWidth pScrn * 24)))) = (virtualY pScrn - x2 pbox) * (BitmapBytePad (i32 (displayWidth pScrn * 24)))"
    by (rule i32_id [OF d1])
  have d3: "in_int (round_down 4 (y1 pbox) * 3)"
    using dy by (simp add: in_int_def)
  have e_d3: "i32 (round_down 4 (y1 pbox) * 3) = round_down 4 (y1 pbox) * 3"
    by (rule i32_id [OF d3])
  have s0: "in_int (ShadowPitch pCir)"
    by (rule in_int_pos [OF ss])
  have e_sp: "i32 (i32 (- rotateC pCir) * ShadowPitch pCir) = ShadowPitch pCir"
    using i32_id [OF s0] by (simp add: rot i32_consts)
  have s1: "in_int (round_down 4 (y1 pbox) * ShadowPitch pCir)"
    by (rule in_int_prod [where A = "round_down 4 (y1 pbox)" and B = "ShadowPitch pCir"]) (use ss sy in simp_all)
  have e_s1: "i32 (round_down 4 (y1 pbox) * ShadowPitch pCir) = round_down 4 (y1 pbox) * ShadowPitch pCir"
    by (rule i32_id [OF s1])
  have s2: "in_int (x2 pbox * 3)"
    using sx by (simp add: in_int_def)
  have e_s2: "i32 (x2 pbox * 3) = x2 pbox * 3"
    by (rule i32_id [OF s2])
  have e_st: "i32 (rotateC pCir * 3) = - 3"
    by (simp add: rot i32_consts)
  show ?thesis
    unfolding cirRefreshArea24_box_def Let_def masks4 round_down_up e_d0 e_d1 e_d3 e_sp e_s1 e_s2 e_st
      outer_gen [of g, OF hom inner]
    using rot le by (simp add: rot270_copy_def pixel_addr_def algebra_simps)
qed

lemma box24_rot270_dst:
  fixes g :: "access list \<Rightarrow> int list"
  assumes hom: "\<And>ts. g (concat ts) = concat (map g ts)"
    and st: "\<And>sp s d. g (cirRefreshArea24_store (ShadowPtr pCir) sp s d) =
               map fst (copy_column (\<lambda>a. a) 3 4 d s sp)"
    and rot: "rotateC pCir = - 1"
    and le: "x1 pbox \<le> x2 pbox" "y1 pbox \<le> y2 pbox"
    and dx: "x2 pbox \<le> virtualY pScrn" "virtualY pScrn - x2 pbox < 2 ^ 31"
    and dp: "0 \<le> BitmapBytePad (i32 (displayWidth pScrn * 24))" "(virtualY pScrn - x2 pbox) * (BitmapBytePad (i32 (displayWidth pScrn * 24))) < 2 ^ 31"
    and dy: "0 \<le> round_down 4 (y1 pbox)" "round_down 4 (y1 pbox) * 3 < 2 ^ 31"
  shows "map_option g (cirRefreshArea24_box BitmapBytePad pScrn pCir pbox) =
     Some (map fst (rot270_copy (\<lambda>a. a) 3 (BitmapBytePad (i32 (displayWidth pScrn * 24))) (SP0) (virtualY pScrn)
             (x1 pbox) (x2 pbox) (round_down 4 (y1 pbox)) (round_up 4 (y2 pbox))))"
proof -
  have inner: "map_option g (cirRefreshArea24_count (ShadowPtr pCir) sp (drop_bit 2 (round_up 4 (y2 pbox) - round_down 4 (y1 pbox))) a b) =
      Some (map fst (copy_column (\<lambda>a. a) 3 (nat (round_up 4 (y2 pbox) - round_down 4 (y1 pbox))) (1 * b) (1 * a) sp))" for sp a b
    using height4 [OF le(2)] by (simp add: count24_gen [of g, OF hom st])
  have d0: "in_int (virtualY pScrn - x2 pbox)"
    using dx by (simp add: in_int_def)
  have e_d0: "i32 (virtualY pScrn - x2 pbox) = virtualY pScrn - x2 pbox"
    by (rule i32_id [OF d0])
  have d1: "in_int ((virtualY pScrn - x2 pbox) * (BitmapBytePad (i32 (displayWidth pScrn * 24))))"
    by (rule in_int_prod [where A = "virtualY pScrn - x2 pbox" and B = "BitmapBytePad (i32 (displayWidth pScrn * 24))"]) (use dx dp in simp_all)
  have e_d1: "i32 ((virtualY pScrn - x2 pbox) * (BitmapBytePad (i32 (displayWidth pScrn * 24)))) = (virtualY pScrn - x2 pbox) * (BitmapBytePad (i32 (displayWidth pScrn * 24)))"
    by (rule i32_id [OF d1])
  have d3: "in_int (round_down 4 (y1 pbox) * 3)"
    using dy by (simp add: in_int_def)
  have e_d3: "i32 (round_down 4 (y1 pbox) * 3) = round_down 4 (y1 pbox) * 3"
    by (rule i32_id [OF d3])
  show ?thesis
    unfolding cirRefreshArea24_box_def Let_def masks4 round_down_up e_d0 e_d1 e_d3
      outer_gen_fst [of g, OF hom inner,
        where S = "pixel_addr SP0 3 (round_down 4 (y1 pbox)) (x2 pbox - 1) 0" and sc = "- 3" and sq = "SP0"]
    using rot le by (simp add: rot270_copy_def pixel_addr_def algebra_simps)
qed

lemma box24_rot270_src:
  fixes g :: "access list \<Rightarrow> int list"
  assumes hom: "\<And>ts. g (concat ts) = concat (map g ts)"
    and st: "\<And>sp s d. g (cirRefreshArea24_store (ShadowPtr pCir) sp s d) =
               map snd (copy_column (\<lambda>a. a) 3 4 d s sp)"
    and rot: "rotateC pCir = - 1"
    and le: "x1 pbox \<le> x2 pbox" "y1 pbox \<le> y2 pbox"
    and ss: "0 \<le> ShadowPitch pCir" "ShadowPitch pCir < 2 ^ 31"
    and sy: "0 \<le> round_down 4 (y1 pbox)" "round_down 4 (y1 pbox) * ShadowPitch pCir < 2 ^ 31"
    and sx: "0 \<le> x2 pbox" "x2 pbox * 3 < 2 ^ 31"
  shows "map_option g (cirRefreshArea24_box BitmapBytePad pScrn pCir pbox) =
     Some (map snd (rot270_copy (\<lambda>a. a) 3 (P0) (ShadowPitch pCir) (H0)
             (x1 pbox) (x2 pbox) (round_down 4 (y1 pbox)) (round_up 4 (y2 pbox))))"
proof -
  have inner: "map_option g (cirRefreshArea24_count (ShadowPtr pCir) sp (drop_bit 2 (round_up 4 (y2 pbox) - round_down 4 (y1 pbox))) a b) =
      Some (map snd (copy_column (\<lambda>a. a) 3 (nat (round_up 4 (y2 pbox) - round_down 4 (y1 pbox))) (1 * b) (1 * a) sp))" for sp a b
    using height4 [OF le(2)] by (simp add: count24_gen [of g, OF hom st])
  have s0: "in_int (ShadowPitch pCir)"
    by (rule in_int_pos [OF ss])
  have e_sp: "i32 (i32 (- rotateC pCir) * ShadowPitch pCir) = ShadowPitch pCir"
    using i32_id [OF s0] by (simp add: rot i32_consts)
  have s1: "in_int (round_down 4 (y1 pbox) * ShadowPitch pCir)"
    by (rule in_int_prod [where A = "round_down 4 (y1 pbox)" and B = "ShadowPitch pCir"]) (use ss sy in simp_all)
  have e_s1: "i32 (round_down 4 (y1 pbox) * ShadowPitch pCir) = round_down 4 (y1 pbox) * ShadowPitch pCir"
    by (rule i32_id [OF s1])
  have s2: "in_int (x2 pbox * 3)"
    using sx by (simp add: in_int_def)
  have e_s2: "i32 (x2 pbox * 3) = x2 pbox * 3"
    by (rule i32_id [OF s2])
  have e_st: "i32 (rotateC pCir * 3) = - 3"
    by (simp add: rot i32_consts)
  show ?thesis
    unfolding cirRefreshArea24_box_def Let_def masks4 round_down_up e_sp e_s1 e_s2 e_st
      outer_gen_snd [of g, OF hom inner,
        where D = "pixel_addr P0 3 (H0 - x2 pbox) (round_down 4 (y1 pbox)) 0" and P = "P0"]
    using rot le by (simp add: rot270_copy_def pixel_addr_def algebra_simps)
qed

lemma box32_rot90:
  fixes g :: "access list \<Rightarrow> 'b list"
  assumes hom: "\<And>ts. g (concat ts) = concat (map g ts)"
    and st: "\<And>s d. g (cirRefreshArea32_store (ShadowPtr pCir) s d) =
               map \<phi> (copy_pixel (\<lambda>a. a) 4 (4 * d) (4 * s))"
    and rot: "rotateC pCir = 1"
    and le: "x1 pbox \<le> x2 pbox" "y1 pbox \<le> y2 pbox"
    and dx: "0 \<le> x1 pbox"
    and dp: "0 \<le> 4 * displayWidth pScrn" "x1 pbox * (4 * displayWidth pScrn) < 2 ^ 31"
    and dv: "4 dvd ShadowPitch pCir"
    and ss: "0 \<le> ShadowPitch pCir" "ShadowPitch pCir < 2 ^ 31"
    and sy: "0 \<le> y2 pbox" "y2 pbox * ShadowPitch pCir < 2 ^ 31"
  shows "map_option g (cirRefreshArea32_box pScrn pCir pbox) =
     Some (map \<phi> (rot90_copy (\<lambda>a. a) 4 (4 * displayWidth pScrn) (ShadowPitch pCir) (virtualX pScrn)
             (x1 pbox) (x2 pbox) (y1 pbox) (y2 pbox)))"
proof -
  have inner: "map_option g (cirRefreshArea32_count (ShadowPtr pCir) sp (y2 pbox - y1 pbox) a b) =
      Some (map \<phi> (copy_column (\<lambda>a. a) 4 (nat (y2 pbox - y1 pbox)) (4 * b) (4 * a) (4 * sp)))" for sp a b
    using le(2) by (simp add: count32_gen [of g, OF hom st])
  have d1: "in_int (x1 pbox * (displayWidth pScrn))"
    by (rule in_int_prod [where A = "x1 pbox" and B = "4 * displayWidth pScrn"]) (use dx dp in simp_all)
  have e_d1: "i32 (x1 pbox * (displayWidth pScrn)) = x1 pbox * (displayWidth pScrn)"
    by (rule i32_id [OF d1])
  have s0: "in_int (- ShadowPitch pCir)"
    by (rule in_int_neg [OF ss])
  have e_sp: "i32 (i32 (- rotateC pCir) * ShadowPitch pCir) = - ShadowPitch pCir"
    using i32_id [OF s0] by (simp add: rot i32_consts)
  obtain q where q: "ShadowPitch pCir = 4 * q"
    using dv by (elim dvdE)
  have q0: "0 \<le> q" "q \<le> ShadowPitch pCir"
    using ss(1) unfolding q by simp_all
  have e_sh: "drop_bit 2 (- ShadowPitch pCir) = - q"
    unfolding q by (simp add: drop_bit_eq_div)
  have s1: "in_int ((1 - y2 pbox) * - q)"
    by (rule in_int_up [where S = "ShadowPitch pCir"]) (use ss sy q0 in simp_all)
  have e_s1: "i32 ((1 - y2 pbox) * - q) = (1 - y2 pbox) * - q"
    by (rule i32_id [OF s1])
  show ?thesis
    unfolding cirRefreshArea32_box_def Let_def e_d1 e_sp e_sh e_s1
      outer_gen [of g, OF hom inner]
    using rot le by (simp add: rot90_copy_def pixel_addr_def q algebra_simps)
qed

lemma box32_rot90_dst:
  fixes g :: "access list \<Rightarrow> int list"
  assumes hom: "\<And>ts. g (concat ts) = concat (map g ts)"
    and st: "\<And>s d. g (cirRefreshArea32_store (ShadowPtr pCir) s d) =
               map fst (copy_pixel (\<lambda>a. a) 4 (4 * d) (4 * s))"
    and rot: "rotateC pCir = 1"
    and le: "x1 pbox \<le> x2 pbox" "y1 pbox \<le> y2 pbox"
    and dx: "0 \<le> x1 pbox"
    and dp: "0 \<le> 4 * displayWidth pScrn" "x1 pbox * (4 * displayWidth pScrn) < 2 ^ 31"
  shows "map_option g (cirRefreshArea32_box pScrn pCir pbox) =
     Some (map fst (rot90_copy (\<lambda>a. a) 4 (4 * displayWidth pScrn) (SP0) (virtualX pScrn)
             (x1 pbox) (x2 pbox) (y1 pbox) (y2 pbox)))"
proof -
  have inner: "map_option g (cirRefreshArea32_count (ShadowPtr pCir) sp (y2 pbox - y1 pbox) a b) =
      Some (map fst (copy_column (\<lambda>a. a) 4 (nat (y2 pbox - y1 pbox)) (4 * b) (4 * a) (4 * sp)))" for sp a b
    using le(2) by (simp add: count32_gen [of g, OF hom st])
  have d1: "in_int (x1 pbox * (displayWidth pScrn))"
    by (rule in_int_prod [where A = "x1 pbox" and B = "4 * displayWidth pScrn"]) (use dx dp in simp_all)
  have e_d1: "i32 (x1 pbox * (displayWidth pScrn)) = x1 pbox * (displayWidth pScrn)"
    by (rule i32_id [OF d1])
  show ?thesis
    unfolding cirRefreshArea32_box_def Let_def e_d1
      outer_gen_fst [of g, OF hom inner,
        where S = "pixel_addr SP0 4 (y2 pbox - 1) (x1 pbox) 0" and sc = "4" and sq = "- SP0"]
    using rot le by (simp add: rot90_copy_def pixel_addr_def algebra_simps)
qed

lemma box32_rot90_src:
  fixes g :: "access list \<Rightarrow> int list"
  assumes hom: "\<And>ts. g (concat ts) = concat (map g ts)"
    and st: "\<And>s d. g (cirRefreshArea32_store (ShadowPtr pCir) s d) =
               map snd (copy_pixel (\<lambda>a. a) 4 (4 * d) (4 * s))"
    and rot: "rotateC pCir = 1"
    and le: "x1 pbox \<le> x2 pbox" "y1 pbox \<le> y2 pbox"
    and dv: "4 dvd ShadowPitch pCir"
    and ss: "0 \<le> ShadowPitch pCir" "ShadowPitch pCir < 2 ^ 31"
    and sy: "0 \<le> y2 pbox" "y2 pbox * ShadowPitch pCir < 2 ^ 31"
  shows "map_option g (cirRefreshArea32_box pScrn pCir pbox) =
     Some (map snd (rot90_copy (\<lambda>a. a) 4 (P0) (ShadowPitch pCir) (V0)
             (x1 pbox) (x2 pbox) (y1 pbox) (y2 pbox)))"
proof -
  have inner: "map_option g (cirRefreshArea32_count (ShadowPtr pCir) sp (y2 pbox - y1 pbox) a b) =
      Some (map snd (copy_column (\<lambda>a. a) 4 (nat (y2 pbox - y1 pbox)) (4 * b) (4 * a) (4 * sp)))" for sp a b
    using le(2) by (simp add: count32_gen [of g, OF hom st])
  have s0: "in_int (- ShadowPitch pCir)"
    by (rule in_int_neg [OF ss])
  have e_sp: "i32 (i32 (- rotateC pCir) * ShadowPitch pCir) = - ShadowPitch pCir"
    using i32_id [OF s0] by (simp add: rot i32_consts)
  obtain q where q: "ShadowPitch pCir = 4 * q"
    using dv by (elim dvdE)
  have q0: "0 \<le> q" "q \<le> ShadowPitch pCir"
    using ss(1) unfolding q by simp_all
  have e_sh: "drop_bit 2 (- ShadowPitch pCir) = - q"
    unfolding q by (simp add: drop_bit_eq_div)
  have s1: "in_int ((1 - y2 pbox) * - q)"
    by (rule in_int_up [where S = "ShadowPitch pCir"]) (use ss sy q0 in simp_all)
  have e_s1: "i32 ((1 - y2 pbox) * - q) = (1 - y2 pbox) * - q"
    by (rule i32_id [OF s1])
  show ?thesis
    unfolding cirRefreshArea32_box_def Let_def e_sp e_sh e_s1
      outer_gen_snd [of g, OF hom inner,
        where D = "pixel_addr P0 4 (x1 pbox) (V0 - y2 pbox) 0" and P = "P0"]
    using rot le by (simp add: rot90_copy_def pixel_addr_def q algebra_simps)
qed

lemma box32_rot270:
  fixes g :: "access list \<Rightarrow> 'b list"
  assumes hom: "\<And>ts. g (concat ts) = concat (map g ts)"
    and st: "\<And>s d. g (cirRefreshArea32_store (ShadowPtr pCir) s d) =
               map \<phi> (copy_pixel (\<lambda>a. a) 4 (4 * d) (4 * s))"
    and rot: "rotateC pCir = - 1"
    and le: "x1 pbox \<le> x2 pbox" "y1 pbox \<le> y2 pbox"
    and dx: "x2 pbox \<le> virtualY pScrn" "virtualY pScrn - x2 pbox < 2 ^ 31"
    and dp: "0 \<le> 4 * displayWidth pScrn" "(virtualY pScrn - x2 pbox) * (4 * displayWidth pScrn) < 2 ^ 31"
    and dv: "4 dvd ShadowPitch pCir"
    and ss: "0 \<le> ShadowPitch pCir" "ShadowPitch pCir < 2 ^ 31"
    and sy: "0 \<le> y1 pbox" "y1 pbox * ShadowPitch pCir < 2 ^ 31"
  shows "map_option g (cirRefreshArea32_box pScrn pCir pbox) =
     Some (map \<phi> (rot270_copy (\<lambda>a. a) 4 (4 * displayWidth pScrn) (ShadowPitch pCir) (virtualY pScrn)
             (x1 pbox) (x2 pbox) (y1 pbox) (y2 pbox)))"
proof -
  have inner: "map_option g (cirRefreshArea32_count (ShadowPtr pCir) sp (y2 pbox - y1 pbox) a b) =
      Some (map \<phi> (copy_column (\<lambda>a. a) 4 (nat (y2 pbox - y1 pbox)) (4 * b) (4 * a) (4 * sp)))" for sp a b
    using le(2) by (simp add: count32_gen [of g, OF hom st])
  have d0: "in_int (virtualY pScrn - x2 pbox)"
    using dx by (simp add: in_int_def)
  have e_d0: "i32 (virtualY pScrn - x2 pbox) = virtualY pScrn - x2 pbox"
    by (rule i32_id [OF d0])
  have d1: "in_int ((virtualY pScrn - x2 pbox) * (displayWidth pScrn))"
    by (rule in_int_prod [where A = "virtualY pScrn - x2 pbox" and B = "4 * displayWidth pScrn"]) (use dx dp in simp_all)
  have e_d1: "i32 ((virtualY pScrn - x2 pbox) * (displayWidth pScrn)) = (virtualY pScrn - x2 pbox) * (displayWidth pScrn)"
    by (rule i32_id [OF d1])
  have s0: "in_int (ShadowPitch pCir)"
    by (rule in_int_pos [OF ss])
  have e_sp: "i32 (i32 (- rotateC pCir) * ShadowPitch pCir) = ShadowPitch pCir"
    using i32_id [OF s0] by (simp add: rot i32_consts)
  obtain q where q: "ShadowPitch pCir = 4 * q"
    using dv by (elim dvdE)
  have q0: "0 \<le> q" "q \<le> ShadowPitch pCir"
    using ss(1) unfolding q by simp_all
  have e_sh: "drop_bit 2 (ShadowPitch pCir) = q"
    unfolding q by (simp add: drop_bit_eq_div)
  have s1: "in_int (y1 pbox * q)"
    by (rule in_int_prod [where A = "y1 pbox" and B = "ShadowPitch pCir"]) (use ss sy q0 in simp_all)
  have e_s1: "i32 (y1 pbox * q) = y1 pbox * q"
    by (rule i32_id [OF s1])
  show ?thesis
    unfolding cirRefreshArea32_box_def Let_def e_d0 e_d1 e_sp e_sh e_s1
      outer_gen [of g, OF hom inner]
    using rot le by (simp add: rot270_copy_def pixel_addr_def q algebra_simps)
qed

lemma box32_rot270_dst:
  fixes g :: "access list \<Rightarrow> int list"
  assumes hom: "\<And>ts. g (concat ts) = concat (map g ts)"
    and st: "\<And>s d. g (cirRefreshArea32_store (ShadowPtr pCir) s d) =
               map fst (copy_pixel (\<lambda>a. a) 4 (4 * d) (4 * s))"
    and rot: "rotateC pCir = - 1"
    and le: "x1 pbox \<le> x2 pbox" "y1 pbox \<le> y2 pbox"
    and dx: "x2 pbox \<le> virtualY pScrn" "virtualY pScrn - x2 pbox < 2 ^ 31"
    and dp: "0 \<le> 4 * displayWidth pScrn" "(virtualY pScrn - x2 pbox) * (4 * displayWidth pScrn) < 2 ^ 31"
  shows "map_option g (cirRefreshArea32_box pScrn pCir pbox) =
     Some (map fst (rot270_copy (\<lambda>a. a) 4 (4 * displayWidth pScrn) (SP0) (virtualY pScrn)
             (x1 pbox) (x2 pbox) (y1 pbox) (y2 pbox)))"
proof -
  have inner: "map_option g (cirRefreshArea32_count (ShadowPtr pCir) sp (y2 pbox - y1 pbox) a b) =
      Some (map fst (copy_column (\<lambda>a. a) 4 (nat (y2 pbox - y1 pbox)) (4 * b) (4 * a) (4 * sp)))" for sp a b
    using le(2) by (simp add: count32_gen [of g, OF hom st])
  have d0: "in_int (virtualY pScrn - x2 pbox)"
    using dx by (simp add: in_int_def)
  have e_d0: "i32 (virtualY pScrn - x2 pbox) = virtualY pScrn - x2 pbox"
    by (rule i32_id [OF d0])
  have d1: "in_int ((virtualY pScrn - x2 pbox) * (displayWidth pScrn))"
    by (rule in_int_prod [where A = "virtualY pScrn - x2 pbox" and B = "4 * displayWidth pScrn"]) (use dx dp in simp_all)
  have e_d1: "i32 ((virtualY pScrn - x2 pbox) * (displayWidth pScrn)) = (virtualY pScrn - x2 pbox) * (displayWidth pScrn)"
    by (rule i32_id [OF d1])
  show ?thesis
    unfolding cirRefreshArea32_box_def Let_def e_d0 e_d1
      outer_gen_fst [of g, OF hom inner,
        where S = "pixel_addr SP0 4 (y1 pbox) (x2 pbox - 1) 0" and sc = "- 4" and sq = "SP0"]
    using rot le by (simp add: rot270_copy_def pixel_addr_def algebra_simps)
qed

lemma box32_rot270_src:
  fixes g :: "access list \<Rightarrow> int list"
  assumes hom: "\<And>ts. g (concat ts) = concat (map g ts)"
    and st: "\<And>s d. g (cirRefreshArea32_store (ShadowPtr pCir) s d) =
               map snd (copy_pixel (\<lambda>a. a) 4 (4 * d) (4 * s))"
    and rot: "rotateC pCir = - 1"
    and le: "x1 pbox \<le> x2 pbox" "y1 pbox \<le> y2 pbox"
    and dv: "4 dvd ShadowPitch pCir"
    and ss: "0 \<le> ShadowPitch pCir" "ShadowPitch pCir < 2 ^ 31"
    and sy: "0 \<le> y1 pbox" "y1 pbox * ShadowPitch pCir < 2 ^ 31"
  shows "map_option g (cirRefreshArea32_box pScrn pCir pbox) =
     Some (map snd (rot270_copy (\<lambda>a. a) 4 (P0) (ShadowPitch pCir) (H0)
             (x1 pbox) (x2 pbox) (y1 pbox) (y2 pbox)))"
proof -
  have inner: "map_option g (cirRefreshArea32_count (ShadowPtr pCir) sp (y2 pbox - y1 pbox) a b) =
      Some (map snd (copy_column (\<lambda>a. a) 4 (nat (y2 pbox - y1 pbox)) (4 * b) (4 * a) (4 * sp)))" for sp a b
    using le(2) by (simp add: count32_gen [of g, OF hom st])
  have s0: "in_int (ShadowPitch pCir)"
    by (rule in_int_pos [OF ss])
  have e_sp: "i32 (i32 (- rotateC pCir) * ShadowPitch pCir) = ShadowPitch pCir"
    using i32_id [OF s0] by (simp add: rot i32_consts)
  obtain q where q: "ShadowPitch pCir = 4 * q"
    using dv by (elim dvdE)
  have q0: "0 \<le> q" "q \<le> ShadowPitch pCir"
    using ss(1) unfolding q by simp_all
  have e_sh: "drop_bit 2 (ShadowPitch pCir) = q"
    unfolding q by (simp add: drop_bit_eq_div)
  have s1: "in_int (y1 pbox * q)"
    by (rule in_int_prod [where A = "y1 pbox" and B = "ShadowPitch pCir"]) (use ss sy q0 in simp_all)
  have e_s1: "i32 (y1 pbox * q) = y1 pbox * q"
    by (rule i32_id [OF s1])
  show ?thesis
    unfolding cirRefreshArea32_box_def Let_def e_sp e_sh e_s1
      outer_gen_snd [of g, OF hom inner,
        where D = "pixel_addr P0 4 (H0 - x2 pbox) (y1 pbox) 0" and P = "P0"]
    using rot le by (simp add: rot270_copy_def pixel_addr_def q algebra_simps)
qed

lemma round_one [simp]: "round_down 1 y = y" "round_up 1 y = y"
  by (simp_all add: round_down_def round_up_def)

lemma group_pos: "0 < group_size d"
  by (cases d) simp_all

lemma round_down_nonneg: "0 < g \<Longrightarrow> 0 \<le> y \<Longrightarrow> 0 \<le> round_down g y"
  by (simp add: round_down_def pos_imp_zdiv_nonneg_iff)

lemma store_writes_map:
  "writes (cirRefreshArea8_store m sp s d) =
     map (\<lambda>(d, s). (d, m s)) (copy_column (\<lambda>a. a) 1 4 d s sp)"
  "writes (cirRefreshArea16_store m sp s d) =
     map (\<lambda>(d, s). (d, m s)) (copy_column (\<lambda>a. a) 2 2 d (2 * s) (2 * sp))"
  "writes (cirRefreshArea24_store m sp s d) =
     map (\<lambda>(d, s). (d, m s)) (copy_column (\<lambda>a. a) 3 4 d s sp)"
  "writes (cirRefreshArea32_store m s d) =
     map (\<lambda>(d, s). (d, m s)) (copy_pixel (\<lambda>a. a) 4 (4 * d) (4 * s))"
  by (simp_all only: store8_writes store16_writes store24_writes store32_writes
      copy_column_map copy_pixel_map)

lemma fst_map_snd: "map fst (map (\<lambda>(d, s). (d, f s)) xs) = map fst xs"
  by (induction xs) auto

lemma store_waddrs:
  "map fst (writes (cirRefreshArea8_store m sp s d)) =
     map fst (copy_column (\<lambda>a. a) 1 4 d s sp)"
  "map fst (writes (cirRefreshArea16_store m sp s d)) =
     map fst (copy_column (\<lambda>a. a) 2 2 d (2 * s) (2 * sp))"
  "map fst (writes (cirRefreshArea24_store m sp s d)) =
     map fst (copy_column (\<lambda>a. a) 3 4 d s sp)"
  "map fst (writes (cirRefreshArea32_store m s d)) =
     map fst (copy_pixel (\<lambda>a. a) 4 (4 * d) (4 * s))"
  by (simp_all only: store_writes_map fst_map_snd)

lemma waddrs_concat:
  "map fst (writes (concat ts)) = concat (map (\<lambda>t. map fst (writes t)) ts)"
  by (simp add: writes_concat map_concat o_def)

lemma rot_copy_map:
  "map (\<lambda>(d, s). (d, f s)) (rot90_copy (\<lambda>a. a) Bpp P SP V X1 X2 Y1 Y2) =
     rot90_copy f Bpp P SP V X1 X2 Y1 Y2"
  "map (\<lambda>(d, s). (d, f s)) (rot270_copy (\<lambda>a. a) Bpp P SP H X1 X2 Y1 Y2) =
     rot270_copy f Bpp P SP H X1 X2 Y1 Y2"
  by (simp_all only: rot90_copy_def rot270_copy_def copy_region_map)


lemma rot_box_writes_90:
  assumes rot: "rotateC pCir = 1"
    and le: "x1 pbox \<le> x2 pbox" "y1 pbox \<le> y2 pbox"
    and y0: "0 \<le> y1 pbox"
    and dx: "0 \<le> x1 pbox"
    and dp: "0 \<le> fb_pitch BitmapBytePad d pScrn" "x1 pbox * fb_pitch BitmapBytePad d pScrn < 2 ^ 31"
    and dy: "round_up (group_size d) (y2 pbox) \<le> virtualX pScrn" "virtualX pScrn * int (bytes_pp d) < 2 ^ 31"
    and dv: "src_unit d dvd ShadowPitch pCir"
    and ss: "0 \<le> ShadowPitch pCir" "ShadowPitch pCir < 2 ^ 31"
    and sy: "round_up (group_size d) (y2 pbox) * ShadowPitch pCir < 2 ^ 31"
    and sx: "x2 pbox * int (bytes_pp d) < 2 ^ 31"
  shows "map_option writes (rot_box BitmapBytePad d pScrn pCir pbox) =
     Some (rot90_copy (ShadowPtr pCir) (bytes_pp d) (fb_pitch BitmapBytePad d pScrn)
             (ShadowPitch pCir) (virtualX pScrn) (x1 pbox) (x2 pbox)
             (round_down (group_size d) (y1 pbox)) (round_up (group_size d) (y2 pbox)))"
proof -
  have Y1: "0 \<le> round_down (group_size d) (y1 pbox)" "round_down (group_size d) (y1 pbox) \<le> y1 pbox"
    using round_down_nonneg [OF group_pos y0, of d] round_down_le [OF group_pos, of d "y1 pbox"]
    by simp_all
  have Y2: "0 \<le> round_up (group_size d) (y2 pbox)"
    using round_up_ge [OF group_pos, of "y2 pbox" d] y0 le(2) by linarith
  have x0: "0 \<le> x2 pbox"
    using le(1) dx by linarith
  show ?thesis
  proof (cases d)
    case D8
    have "map_option writes (cirRefreshArea8_box pScrn pCir pbox) =
        Some (map (\<lambda>(d, s). (d, ShadowPtr pCir s)) (rot90_copy (\<lambda>a. a) 1 (displayWidth pScrn) (ShadowPitch pCir) (virtualX pScrn)
               (x1 pbox) (x2 pbox) (round_down 4 (y1 pbox)) (round_up 4 (y2 pbox))))"
      by (rule box8_rot90 [of writes, OF writes_concat store_writes_map(1) rot])
         (use assms Y1 Y2 x0 D8 in simp_all)
    then show ?thesis by (simp add: D8 rot_copy_map)
  next
    case D16
    have "map_option writes (cirRefreshArea16_box pScrn pCir pbox) =
        Some (map (\<lambda>(d, s). (d, ShadowPtr pCir s)) (rot90_copy (\<lambda>a. a) 2 (2 * displayWidth pScrn) (ShadowPitch pCir) (virtualX pScrn)
               (x1 pbox) (x2 pbox) (round_down 2 (y1 pbox)) (round_up 2 (y2 pbox))))"
      by (rule box16_rot90 [of writes, OF writes_concat store_writes_map(2) rot])
         (use assms Y1 Y2 x0 D16 in simp_all)
    then show ?thesis by (simp add: D16 rot_copy_map)
  next
    case D24
    have "map_option writes (cirRefreshArea24_box BitmapBytePad pScrn pCir pbox) =
        Some (map (\<lambda>(d, s). (d, ShadowPtr pCir s)) (rot90_copy (\<lambda>a. a) 3 (BitmapBytePad (i32 (displayWidth pScrn * 24))) (ShadowPitch pCir) (virtualX pScrn)
               (x1 pbox) (x2 pbox) (round_down 4 (y1 pbox)) (round_up 4 (y2 pbox))))"
      by (rule box24_rot90 [of writes, OF writes_concat store_writes_map(3) rot])
         (use assms Y1 Y2 x0 D24 in simp_all)
    then show ?thesis by (simp add: D24 rot_copy_map)
  next
    case D32
    have "map_option writes (cirRefreshArea32_box pScrn pCir pbox) =
        Some (map (\<lambda>(d, s). (d, ShadowPtr pCir s)) (rot90_copy (\<lambda>a. a) 4 (4 * displayWidth pScrn) (ShadowPitch pCir) (virtualX pScrn)
               (x1 pbox) (x2 pbox) (y1 pbox) (y2 pbox)))"
      by (rule box32_rot90 [of writes, OF writes_concat store_writes_map(4) rot])
         (use assms Y1 Y2 x0 D32 in simp_all)
    then show ?thesis by (simp add: D32 rot_copy_map)
  qed
qed

lemma rot_box_writes_270:
  assumes rot: "rotateC pCir = - 1"
    and le: "x1 pbox \<le> x2 pbox" "y1 pbox \<le> y2 pbox"
    and y0: "0 \<le> y1 pbox"
    and dx: "x2 pbox \<le> virtualY pScrn" "virtualY pScrn - x2 pbox < 2 ^ 31"
    and dp: "0 \<le> fb_pitch BitmapBytePad d pScrn" "(virtualY pScrn - x2 pbox) * fb_pitch BitmapBytePad d pScrn < 2 ^ 31"
    and dy: "y1 pbox * int (bytes_pp d) < 2 ^ 31"
    and dv: "src_unit d dvd ShadowPitch pCir"
    and ss: "0 \<le> ShadowPitch pCir" "ShadowPitch pCir < 2 ^ 31"
    and sy: "round_down (group_size d) (y1 pbox) * ShadowPitch pCir < 2 ^ 31"
    and sx: "0 \<le> x1 pbox" "x2 pbox * int (bytes_pp d) < 2 ^ 31"
  shows "map_option writes (rot_box BitmapBytePad d pScrn pCir pbox) =
     Some (rot270_copy (ShadowPtr pCir) (bytes_pp d) (fb_pitch BitmapBytePad d pScrn)
             (ShadowPitch pCir) (virtualY pScrn) (x1 pbox) (x2 pbox)
             (round_down (group_size d) (y1 pbox)) (round_up (group_size d) (y2 pbox)))"
proof -
  have Y1: "0 \<le> round_down (group_size d) (y1 pbox)" "round_down (group_size d) (y1 pbox) \<le> y1 pbox"
    using round_down_nonneg [OF group_pos y0, of d] round_down_le [OF group_pos, of d "y1 pbox"]
    by simp_all
  have Y2: "0 \<le> round_up (group_size d) (y2 pbox)"
    using round_up_ge [OF group_pos, of "y2 pbox" d] y0 le(2) by linarith
  have x0: "0 \<le> x2 pbox"
    using le(1) sx by linarith
  show ?thesis
  proof (cases d)
    case D8
    have "map_option writes (cirRefreshArea8_box pScrn pCir pbox) =
        Some (map (\<lambda>(d, s). (d, ShadowPtr pCir s)) (rot270_copy (\<lambda>a. a) 1 (displayWidth pScrn) (ShadowPitch pCir) (virtualY pScrn)
               (x1 pbox) (x2 pbox) (round_down 4 (y1 pbox)) (round_up 4 (y2 pbox))))"
      by (rule box8_rot270 [of writes, OF writes_concat store_writes_map(1) rot])
         (use assms Y1 Y2 x0 D8 in simp_all)
    then show ?thesis by (simp add: D8 rot_copy_map)
  next
    case D16
    have "map_option writes (cirRefreshArea16_box pScrn pCir pbox) =
        Some (map (\<lambda>(d, s). (d, ShadowPtr pCir s)) (rot270_copy (\<lambda>a. a) 2 (2 * displayWidth pScrn) (ShadowPitch pCir) (virtualY pScrn)
               (x1 pbox) (x2 pbox) (round_down 2 (y1 pbox)) (round_up 2 (y2 pbox))))"
      by (rule box16_rot270 [of writes, OF writes_concat store_writes_map(2) rot])
         (use assms Y1 Y2 x0 D16 in simp_all)
    then show ?thesis by (simp add: D16 rot_copy_map)
  next
    case D24
    have "map_option writes (cirRefreshArea24_box BitmapBytePad pScrn pCir pbox) =
        Some (map (\<lambda>(d, s). (d, ShadowPtr pCir s)) (rot270_copy (\<lambda>a. a) 3 (BitmapBytePad (i32 (displayWidth pScrn * 24))) (ShadowPitch pCir) (virtualY pScrn)
               (x1 pbox) (x2 pbox) (round_down 4 (y1 pbox)) (round_up 4 (y2 pbox))))"
      by (rule box24_rot270 [of writes, OF writes_concat store_writes_map(3) rot])
         (use assms Y1 Y2 x0 D24 in simp_all)
    then show ?thesis by (simp add: D24 rot_copy_map)
  next
    case D32
    have "map_option writes (cirRefreshArea32_box pScrn pCir pbox) =
        Some (map (\<lambda>(d, s). (d, ShadowPtr pCir s)) (rot270_copy (\<lambda>a. a) 4 (4 * displayWidth pScrn) (ShadowPitch pCir) (virtualY pScrn)
               (x1 pbox) (x2 pbox) (y1 pbox) (y2 pbox)))"
      by (rule box32_rot270 [of writes, OF writes_concat store_writes_map(4) rot])
         (use assms Y1 Y2 x0 D32 in simp_all)
    then show ?thesis by (simp add: D32 rot_copy_map)
  qed
qed

lemma rot_box_waddrs_90:
  assumes rot: "rotateC pCir = 1"
    and le: "x1 pbox \<le> x2 pbox" "y1 pbox \<le> y2 pbox"
    and y0: "0 \<le> y1 pbox"
    and dx: "0 \<le> x1 pbox"
    and dp: "0 \<le> fb_pitch BitmapBytePad d pScrn" "x1 pbox * fb_pitch BitmapBytePad d pScrn < 2 ^ 31"
    and dy: "round_up (group_size d) (y2 pbox) \<le> virtualX pScrn" "virtualX pScrn * int (bytes_pp d) < 2 ^ 31"
  shows "map_option (\<lambda>t. map fst (writes t)) (rot_box BitmapBytePad d pScrn pCir pbox) =
     Some (map fst (rot90_copy (\<lambda>a. a) (bytes_pp d) (fb_pitch BitmapBytePad d pScrn)
             SP0 (virtualX pScrn) (x1 pbox) (x2 pbox)
             (round_down (group_size d) (y1 pbox)) (round_up (group_size d) (y2 pbox))))"
proof -
  have Y1: "0 \<le> round_down (group_size d) (y1 pbox)" "round_down (group_size d) (y1 pbox) \<le> y1 pbox"
    using round_down_nonneg [OF group_pos y0, of d] round_down_le [OF group_pos, of d "y1 pbox"]
    by simp_all
  have Y2: "0 \<le> round_up (group_size d) (y2 pbox)"
    using round_up_ge [OF group_pos, of "y2 pbox" d] y0 le(2) by linarith
  have x0: "0 \<le> x2 pbox"
    using le(1) dx by linarith
  show ?thesis
  proof (cases d)
    case D8
    have "map_option (\<lambda>t. map fst (writes t)) (cirRefreshArea8_box pScrn pCir pbox) =
        Some (map fst (rot90_copy (\<lambda>a. a) 1 (displayWidth pScrn) (SP0) (virtualX pScrn)
               (x1 pbox) (x2 pbox) (round_down 4 (y1 pbox)) (round_up 4 (y2 pbox))))"
      by (rule box8_rot90_dst [of "\<lambda>t. map fst (writes t)", OF waddrs_concat store_waddrs(1) rot])
         (use assms Y1 Y2 x0 D8 in simp_all)
    then show ?thesis by (simp add: D8)
  next
    case D16
    have "map_option (\<lambda>t. map fst (writes t)) (cirRefreshArea16_box pScrn pCir pbox) =
        Some (map fst (rot90_copy (\<lambda>a. a) 2 (2 * displayWidth pScrn) (SP0) (virtualX pScrn)
               (x1 pbox) (x2 pbox) (round_down 2 (y1 pbox)) (round_up 2 (y2 pbox))))"
      by (rule box16_rot90_dst [of "\<lambda>t. map fst (writes t)", OF waddrs_concat store_waddrs(2) rot])
         (use assms Y1 Y2 x0 D16 in simp_all)
    then show ?thesis by (simp add: D16)
  next
    case D24
    have "map_option (\<lambda>t. map fst (writes t)) (cirRefreshArea24_box BitmapBytePad pScrn pCir pbox) =
        Some (map fst (rot90_copy (\<lambda>a. a) 3 (BitmapBytePad (i32 (displayWidth pScrn * 24))) (SP0) (virtualX pScrn)
               (x1 pbox) (x2 pbox) (round_down 4 (y1 pbox)) (round_up 4 (y2 pbox))))"
      by (rule box24_rot90_dst [of "\<lambda>t. map fst (writes t)", OF waddrs_concat store_waddrs(3) rot])
         (use assms Y1 Y2 x0 D24 in simp_all)
    then show ?thesis by (simp add: D24)
  next
    case D32
    have "map_option (\<lambda>t. map fst (writes t)) (cirRefreshArea32_box pScrn pCir pbox) =
        Some (map fst (rot90_copy (\<lambda>a. a) 4 (4 * displayWidth pScrn) (SP0) (virtualX pScrn)
               (x1 pbox) (x2 pbox) (y1 pbox) (y2 pbox)))"
      by (rule box32_rot90_dst [of "\<lambda>t. map fst (writes t)", OF waddrs_concat store_waddrs(4) rot])
         (use assms Y1 Y2 x0 D32 in simp_all)
    then show ?thesis by (simp add: D32)
  qed
qed

lemma rot_box_waddrs_270:
  assumes rot: "rotateC pCir = - 1"
    and le: "x1 pbox \<le> x2 pbox" "y1 pbox \<le> y2 pbox"
    and y0: "0 \<le> y1 pbox"
    and dx: "x2 pbox \<le> virtualY pScrn" "virtualY pScrn - x2 pbox < 2 ^ 31"
    and dp: "0 \<le> fb_pitch BitmapBytePad d pScrn" "(virtualY pScrn - x2 pbox) * fb_pitch BitmapBytePad d pScrn < 2 ^ 31"
    and dy: "y1 pbox * int (bytes_pp d) < 2 ^ 31"
  shows "map_option (\<lambda>t. map fst (writes t)) (rot_box BitmapBytePad d pScrn pCir pbox) =
     Some (map fst (rot270_copy (\<lambda>a. a) (bytes_pp d) (fb_pitch BitmapBytePad d pScrn)
             SP0 (virtualY pScrn) (x1 pbox) (x2 pbox)
             (round_down (group_size d) (y1 pbox)) (round_up (group_size d) (y2 pbox))))"
proof -
  have Y1: "0 \<le> round_down (group_size d) (y1 pbox)" "round_down (group_size d) (y1 pbox) \<le> y1 pbox"
    using round_down_nonneg [OF group_pos y0, of d] round_down_le [OF group_pos, of d "y1 pbox"]
    by simp_all
  have Y2: "0 \<le> round_up (group_size d) (y2 pbox)"
    using round_up_ge [OF group_pos, of "y2 pbox" d] y0 le(2) by linarith
  have x0: "x1 pbox \<le> x2 pbox"
    by (rule le(1))
  show ?thesis
  proof (cases d)
    case D8
    have "map_option (\<lambda>t. map fst (writes t)) (cirRefreshArea8_box pScrn pCir pbox) =
        Some (map fst (rot270_copy (\<lambda>a. a) 1 (displayWidth pScrn) (SP0) (virtualY pScrn)
               (x1 pbox) (x2 pbox) (round_down 4 (y1 pbox)) (round_up 4 (y2 pbox))))"
      by (rule box8_rot270_dst [of "\<lambda>t. map fst (writes t)", OF waddrs_concat store_waddrs(1) rot])
         (use assms Y1 Y2 x0 D8 in simp_all)
    then show ?thesis by (simp add: D8)
  next
    case D16
    have "map_option (\<lambda>t. map fst (writes t)) (cirRefreshArea16_box pScrn pCir pbox) =
        Some (map fst (rot270_copy (\<lambda>a. a) 2 (2 * displayWidth pScrn) (SP0) (virtualY pScrn)
               (x1 pbox) (x2 pbox) (round_down 2 (y1 pbox)) (round_up 2 (y2 pbox))))"
      by (rule box16_rot270_dst [of "\<lambda>t. map fst (writes t)", OF waddrs_concat store_waddrs(2) rot])
         (use assms Y1 Y2 x0 D16 in simp_all)
    then show ?thesis by (simp add: D16)
  next
    case D24
    have "map_option (\<lambda>t. map fst (writes t)) (cirRefreshArea24_box BitmapBytePad pScrn pCir pbox) =
        Some (map fst (rot270_copy (\<lambda>a. a) 3 (BitmapBytePad (i32 (displayWidth pScrn * 24))) (SP0) (virtualY pScrn)
               (x1 pbox) (x2 pbox) (round_down 4 (y1 pbox)) (round_up 4 (y2 pbox))))"
      by (rule box24_rot270_dst [of "\<lambda>t. map fst (writes t)", OF waddrs_concat store_waddrs(3) rot])
         (use assms Y1 Y2 x0 D24 in simp_all)
    then show ?thesis by (simp add: D24)
  next
    case D32
    have "map_option (\<lambda>t. map fst (writes t)) (cirRefreshArea32_box pScrn pCir pbox) =
        Some (map fst (rot270_copy (\<lambda>a. a) 4 (4 * displayWidth pScrn) (SP0) (virtualY pScrn)
               (x1 pbox) (x2 pbox) (y1 pbox) (y2 pbox)))"
      by (rule box32_rot270_dst [of "\<lambda>t. map fst (writes t)", OF waddrs_concat store_waddrs(4) rot])
         (use assms Y1 Y2 x0 D32 in simp_all)
    then show ?thesis by (simp add: D32)
  qed
qed

lemma rot_box_reads_90:
  assumes rot: "rotateC pCir = 1"
    and le: "x1 pbox \<le> x2 pbox" "y1 pbox \<le> y2 pbox"
    and y0: "0 \<le> y1 pbox"
    and dv: "src_unit d dvd ShadowPitch pCir"
    and ss: "0 \<le> ShadowPitch pCir" "ShadowPitch pCir < 2 ^ 31"
    and sy: "round_up (group_size d) (y2 pbox) * ShadowPitch pCir < 2 ^ 31"
    and sx: "0 \<le> x1 pbox" "x2 pbox * int (bytes_pp d) < 2 ^ 31"
  shows "map_option reads (rot_box BitmapBytePad d pScrn pCir pbox) =
     Some (map snd (rot90_copy (\<lambda>a. a) (bytes_pp d) P0
             (ShadowPitch pCir) V0 (x1 pbox) (x2 pbox)
             (round_down (group_size d) (y1 pbox)) (round_up (group_size d) (y2 pbox))))"
proof -
  have Y1: "0 \<le> round_down (group_size d) (y1 pbox)" "round_down (group_size d) (y1 pbox) \<le> y1 pbox"
    using round_down_nonneg [OF group_pos y0, of d] round_down_le [OF group_pos, of d "y1 pbox"]
    by simp_all
  have Y2: "0 \<le> round_up (group_size d) (y2 pbox)"
    using round_up_ge [OF group_pos, of "y2 pbox" d] y0 le(2) by linarith
  have x0: "0 \<le> x2 pbox"
    using le(1) sx by linarith
  show ?thesis
  proof (cases d)
    case D8
    have "map_option reads (cirRefreshArea8_box pScrn pCir pbox) =
        Some (map snd (rot90_copy (\<lambda>a. a) 1 (P0) (ShadowPitch pCir) (V0)
               (x1 pbox) (x2 pbox) (round_down 4 (y1 pbox)) (round_up 4 (y2 pbox))))"
      by (rule box8_rot90_src [of reads, OF reads_concat store8_reads rot])
         (use assms Y1 Y2 x0 D8 in simp_all)
    then show ?thesis by (simp add: D8)
  next
    case D16
    have "map_option reads (cirRefreshArea16_box pScrn pCir pbox) =
        Some (map snd (rot90_copy (\<lambda>a. a) 2 (P0) (ShadowPitch pCir) (V0)
               (x1 pbox) (x2 pbox) (round_down 2 (y1 pbox)) (round_up 2 (y2 pbox))))"
      by (rule box16_rot90_src [of reads, OF reads_concat store16_reads rot])
         (use assms Y1 Y2 x0 D16 in simp_all)
    then show ?thesis by (simp add: D16)
  next
    case D24
    have "map_option reads (cirRefreshArea24_box BitmapBytePad pScrn pCir pbox) =
        Some (map snd (rot90_copy (\<lambda>a. a) 3 (P0) (ShadowPitch pCir) (V0)
               (x1 pbox) (x2 pbox) (round_down 4 (y1 pbox)) (round_up 4 (y2 pbox))))"
      by (rule box24_rot90_src [of reads, OF reads_concat store24_reads rot])
         (use assms Y1 Y2 x0 D24 in simp_all)
    then show ?thesis by (simp add: D24)
  next
    case D32
    have "map_option reads (cirRefreshArea32_box pScrn pCir pbox) =
        Some (map snd (rot90_copy (\<lambda>a. a) 4 (P0) (ShadowPitch pCir) (V0)
               (x1 pbox) (x2 pbox) (y1 pbox) (y2 pbox)))"
      by (rule box32_rot90_src [of reads, OF reads_concat store32_reads rot])
         (use assms Y1 Y2 x0 D32 in simp_all)
    then show ?thesis by (simp add: D32)
  qed
qed

lemma rot_box_reads_270:
  assumes rot: "rotateC pCir = - 1"
    and le: "x1 pbox \<le> x2 pbox" "y1 pbox \<le> y2 pbox"
    and y0: "0 \<le> y1 pbox"
    and dv: "src_unit d dvd ShadowPitch pCir"
    and ss: "0 \<le> ShadowPitch pCir" "ShadowPitch pCir < 2 ^ 31"
    and sy: "round_down (group_size d) (y1 pbox) * ShadowPitch pCir < 2 ^ 31"
    and sx: "0 \<le> x1 pbox" "x2 pbox * int (bytes_pp d) < 2 ^ 31"
  shows "map_option reads (rot_box BitmapBytePad d pScrn pCir pbox) =
     Some (map snd (rot270_copy (\<lambda>a. a) (bytes_pp d) P0
             (ShadowPitch pCir) H0 (x1 pbox) (x2 pbox)
             (round_down (group_size d) (y1 pbox)) (round_up (group_size d) (y2 pbox))))"
proof -
  have Y1: "0 \<le> round_down (group_size d) (y1 pbox)" "round_down (group_size d) (y1 pbox) \<le> y1 pbox"
    using round_down_nonneg [OF group_pos y0, of d] round_down_le [OF group_pos, of d "y1 pbox"]
    by simp_all
  have Y2: "0 \<le> round_up (group_size d) (y2 pbox)"
    using round_up_ge [OF group_pos, of "y2 pbox" d] y0 le(2) by linarith
  have x0: "0 \<le> x2 pbox"
    using le(1) sx by linarith
  show ?thesis
  proof (cases d)
    case D8
    have "map_option reads (cirRefreshArea8_box pScrn pCir pbox) =
        Some (map snd (rot270_copy (\<lambda>a. a) 1 (P0) (ShadowPitch pCir) (H0)
               (x1 pbox) (x2 pbox) (round_down 4 (y1 pbox)) (round_up 4 (y2 pbox))))"
      by (rule box8_rot270_src [of reads, OF reads_concat store8_reads rot])
         (use assms Y1 Y2 x0 D8 in simp_all)
    then show ?thesis by (simp add: D8)
  next
    case D16
    have "map_option reads (cirRefreshArea16_box pScrn pCir pbox) =
        Some (map snd (rot270_copy (\<lambda>a. a) 2 (P0) (ShadowPitch pCir) (H0)
               (x1 pbox) (x2 pbox) (round_down 2 (y1 pbox)) (round_up 2 (y2 pbox))))"
      by (rule box16_rot270_src [of reads, OF reads_concat store16_reads rot])
         (use assms Y1 Y2 x0 D16 in simp_all)
    then show ?thesis by (simp add: D16)
  next
    case D24
    have "map_option reads (cirRefreshArea24_box BitmapBytePad pScrn pCir pbox) =
        Some (map snd (rot270_copy (\<lambda>a. a) 3 (P0) (ShadowPitch pCir) (H0)
               (x1 pbox) (x2 pbox) (round_down 4 (y1 pbox)) (round_up 4 (y2 pbox))))"
      by (rule box24_rot270_src [of reads, OF reads_concat store24_reads rot])
         (use assms Y1 Y2 x0 D24 in simp_all)
    then show ?thesis by (simp add: D24)
  next
    case D32
    have "map_option reads (cirRefreshArea32_box pScrn pCir pbox) =
        Some (map snd (rot270_copy (\<lambda>a. a) 4 (P0) (ShadowPitch pCir) (H0)
               (x1 pbox) (x2 pbox) (y1 pbox) (y2 pbox)))"
      by (rule box32_rot270_src [of reads, OF reads_concat store32_reads rot])
         (use assms Y1 Y2 x0 D32 in simp_all)
    then show ?thesis by (simp add: D32)
  qed
qed
subsection \<open>Stores and the resulting memory\<close>

lemma run_store_all: "run t fb = store_all (writes t) fb"
proof (induction t arbitrary: fb)
  case Nil
  show ?case by simp
next
  case (Cons x t)
  then show ?case by (cases x) (simp_all add: fun_upd_def)
qed

lemma store_all_other: "a \<notin> fst ` set ws \<Longrightarrow> store_all ws fb a = fb a"
  by (induction ws arbitrary: fb) auto

lemma store_all_in:
  assumes "(a, v) \<in> set ws" and "\<And>v'. (a, v') \<in> set ws \<Longrightarrow> v' = v"
  shows "store_all ws fb a = v"
  using assms
proof (induction ws arbitrary: fb)
  case Nil
  then show ?case by simp
next
  case (Cons w ws)
  obtain a' v' where w: "w = (a', v')" by (cases w)
  have uniq: "v'' = v" if "(a, v'') \<in> set ws" for v''
    by (rule Cons.prems(2)) (simp add: that)
  show ?case
  proof (cases "(a, v) \<in> set ws")
    case True
    have "store_all ws (fb(a' := v')) a = v"
      using True uniq by (rule Cons.IH)
    then show ?thesis by (simp add: w)
  next
    case False
    have "(a, v) = w"
      using Cons.prems(1) False by simp
    then have eq: "a' = a" "v' = v" using w by simp_all
    have "a \<notin> fst ` set ws"
    proof
      assume "a \<in> fst ` set ws"
      then obtain v'' where "(a, v'') \<in> set ws" by force
      then show False using uniq [of v''] False by simp
    qed
    then have "store_all ws (fb(a := v)) a = (fb(a := v)) a"
      by (rule store_all_other)
    then show ?thesis by (simp add: w eq)
  qed
qed

lemma copy_pixel_mem:
  "z \<in> set (copy_pixel f Bpp d s) \<longleftrightarrow> (\<exists>b<Bpp. z = (d + int b, f (s + int b)))"
  unfolding copy_pixel_def by auto

lemma copy_column_mem:
  "z \<in> set (copy_column f Bpp n d s sp) \<longleftrightarrow>
     (\<exists>k<n. \<exists>b<Bpp. z = (d + int k * int Bpp + int b, f (s + int k * sp + int b)))"
  unfolding copy_column_def by (simp add: copy_pixel_mem Bex_def)

lemma copy_region_mem:
  "z \<in> set (copy_region f Bpp w n D P S sc sp) \<longleftrightarrow>
     (\<exists>i<w. \<exists>k<n. \<exists>b<Bpp.
        z = (D + int i * P + int k * int Bpp + int b, f (S + int i * sc + int k * sp + int b)))"
  unfolding copy_region_def by (simp add: copy_column_mem Bex_def)

subsection \<open>The transposed copies, pixel by pixel\<close>

lemma rot90_mem:
  "z \<in> set (rot90_copy f Bpp P SP V X1 X2 Y1 Y2) \<longleftrightarrow>
     (\<exists>x y b. X1 \<le> x \<and> x < X2 \<and> Y1 \<le> y \<and> y < Y2 \<and> b < Bpp \<and>
        z = (pixel_addr P Bpp x (V - 1 - y) b, f (pixel_addr SP Bpp y x b)))"
  (is "?L \<longleftrightarrow> ?R")
proof
  assume ?L
  then obtain i k b where ikb: "i < nat (X2 - X1)" "k < nat (Y2 - Y1)" "b < Bpp"
    and z: "z = (pixel_addr P Bpp X1 (V - Y2) 0 + int i * P + int k * int Bpp + int b,
                 f (pixel_addr SP Bpp (Y2 - 1) X1 0 + int i * int Bpp + int k * (- SP) + int b))"
    unfolding rot90_copy_def copy_region_mem by blast
  let ?x = "X1 + int i" and ?y = "Y2 - 1 - int k"
  have "z = (pixel_addr P Bpp ?x (V - 1 - ?y) b, f (pixel_addr SP Bpp ?y ?x b))"
    unfolding z by (simp add: pixel_addr_def algebra_simps)
  moreover have "X1 \<le> ?x" "?x < X2" "Y1 \<le> ?y" "?y < Y2"
    using ikb by linarith+
  ultimately show ?R using ikb(3) by blast
next
  assume ?R
  then obtain x y b where xyb: "X1 \<le> x" "x < X2" "Y1 \<le> y" "y < Y2" "b < Bpp"
    and z: "z = (pixel_addr P Bpp x (V - 1 - y) b, f (pixel_addr SP Bpp y x b))"
    by blast
  let ?i = "nat (x - X1)" and ?k = "nat (Y2 - 1 - y)"
  have "?i < nat (X2 - X1)" "?k < nat (Y2 - Y1)"
    using xyb by linarith+
  moreover have "z = (pixel_addr P Bpp X1 (V - Y2) 0 + int ?i * P + int ?k * int Bpp + int b,
                 f (pixel_addr SP Bpp (Y2 - 1) X1 0 + int ?i * int Bpp + int ?k * (- SP) + int b))"
    unfolding z using xyb by (simp add: pixel_addr_def algebra_simps)
  ultimately show ?L
    unfolding rot90_copy_def copy_region_mem using xyb(5) by blast
qed

lemma rot270_mem:
  "z \<in> set (rot270_copy f Bpp P SP H X1 X2 Y1 Y2) \<longleftrightarrow>
     (\<exists>x y b. X1 \<le> x \<and> x < X2 \<and> Y1 \<le> y \<and> y < Y2 \<and> b < Bpp \<and>
        z = (pixel_addr P Bpp (H - 1 - x) y b, f (pixel_addr SP Bpp y x b)))"
  (is "?L \<longleftrightarrow> ?R")
proof
  assume ?L
  then obtain i k b where ikb: "i < nat (X2 - X1)" "k < nat (Y2 - Y1)" "b < Bpp"
    and z: "z = (pixel_addr P Bpp (H - X2) Y1 0 + int i * P + int k * int Bpp + int b,
                 f (pixel_addr SP Bpp Y1 (X2 - 1) 0 + int i * (- int Bpp) + int k * SP + int b))"
    unfolding rot270_copy_def copy_region_mem by blast
  let ?x = "X2 - 1 - int i" and ?y = "Y1 + int k"
  have "z = (pixel_addr P Bpp (H - 1 - ?x) ?y b, f (pixel_addr SP Bpp ?y ?x b))"
    unfolding z by (simp add: pixel_addr_def algebra_simps)
  moreover have "X1 \<le> ?x" "?x < X2" "Y1 \<le> ?y" "?y < Y2"
    using ikb by linarith+
  ultimately show ?R using ikb(3) by blast
next
  assume ?R
  then obtain x y b where xyb: "X1 \<le> x" "x < X2" "Y1 \<le> y" "y < Y2" "b < Bpp"
    and z: "z = (pixel_addr P Bpp (H - 1 - x) y b, f (pixel_addr SP Bpp y x b))"
    by blast
  let ?i = "nat (X2 - 1 - x)" and ?k = "nat (y - Y1)"
  have "?i < nat (X2 - X1)" "?k < nat (Y2 - Y1)"
    using xyb by linarith+
  moreover have "z = (pixel_addr P Bpp (H - X2) Y1 0 + int ?i * P + int ?k * int Bpp + int b,
                 f (pixel_addr SP Bpp Y1 (X2 - 1) 0 + int ?i * (- int Bpp) + int ?k * SP + int b))"
    unfolding z using xyb by (simp add: pixel_addr_def algebra_simps)
  ultimately show ?L
    unfolding rot270_copy_def copy_region_mem using xyb(5) by blast
qed

lemma div_mod_unique:
  fixes r r' u u' P :: int
  assumes "0 \<le> u" "u < P" "0 \<le> u'" "u' < P" "r * P + u = r' * P + u'"
  shows "r = r' \<and> u = u'"
proof -
  have P: "0 < P" using assms by linarith
  have "r = (r * P + u) div P"
    using assms(1-4) P by (simp add: div_pos_pos_trivial)
  also have "\<dots> = (r' * P + u') div P"
    by (simp only: assms(5))
  also have "\<dots> = r'"
    using assms(1-4) P by (simp add: div_pos_pos_trivial)
  finally have "r = r'" .
  then show ?thesis using assms(5) by simp
qed

lemma pixel_addr_inj:
  assumes "0 < Bpp" and "V * int Bpp \<le> P"
    and "0 \<le> c" "c < V" "b < Bpp" "0 \<le> c'" "c' < V" "b' < Bpp"
    and "pixel_addr P Bpp r c b = pixel_addr P Bpp r' c' b'"
  shows "r = r' \<and> c = c' \<and> b = b'"
proof -
  let ?u = "c * int Bpp + int b" and ?u' = "c' * int Bpp + int b'"
  have le: "(c + 1) * int Bpp \<le> V * int Bpp" "(c' + 1) * int Bpp \<le> V * int Bpp"
    using assms by (simp_all add: mult_right_mono)
  have u: "0 \<le> ?u" "?u < P" "0 \<le> ?u'" "?u' < P"
    using assms le by (simp_all add: algebra_simps)
  have "r * P + ?u = r' * P + ?u'"
    using assms(9) by (simp add: pixel_addr_def algebra_simps)
  from div_mod_unique [OF u this] have r: "r = r'" and uu: "?u = ?u'" by simp_all
  have "c = c' \<and> int b = int b'"
    by (rule div_mod_unique [of "int b" "int Bpp" "int b'" c c']) (use assms uu in simp_all)
  with r show ?thesis by simp
qed

lemma pixel_div_mod:
  assumes "0 < Bpp" and "V * int Bpp \<le> P" and "0 \<le> c" "c < V" "b < Bpp"
  shows "pixel_addr P Bpp r c b div P = r"
    and "pixel_addr P Bpp r c b mod P = c * int Bpp + int b"
    and "(c * int Bpp + int b) div int Bpp = c"
    and "(c * int Bpp + int b) mod int Bpp = int b"
proof -
  let ?u = "c * int Bpp + int b"
  have "(c + 1) * int Bpp \<le> V * int Bpp"
    using assms by (simp add: mult_right_mono)
  then have u: "0 \<le> ?u" "?u < P"
    using assms by (simp_all add: algebra_simps)
  then have P: "0 < P" by linarith
  have a: "pixel_addr P Bpp r c b = r * P + ?u"
    by (simp add: pixel_addr_def)
  show "pixel_addr P Bpp r c b div P = r"
    unfolding a using u P by (simp add: div_pos_pos_trivial)
  show "pixel_addr P Bpp r c b mod P = ?u"
    unfolding a using u P by (simp add: mod_pos_pos_trivial)
  show "?u div int Bpp = c" "?u mod int Bpp = int b"
    using assms by (simp_all add: div_pos_pos_trivial mod_pos_pos_trivial)
qed

lemma in_fb_pixel:
  assumes "0 < Bpp" and "V * int Bpp \<le> P" and "0 \<le> c" "c < V" "b < Bpp"
    and "0 \<le> r" "r < H"
  shows "in_fb P Bpp V H (pixel_addr P Bpp r c b)"
proof -
  have "(c + 1) * int Bpp \<le> V * int Bpp"
    using assms by (simp add: mult_right_mono)
  then have u: "0 \<le> c * int Bpp + int b" "c * int Bpp + int b < V * int Bpp"
    using assms by (simp_all add: algebra_simps)
  then have "0 \<le> P" using assms(2) by linarith
  then have "0 \<le> r * P" using assms(6) by simp
  then have "0 \<le> pixel_addr P Bpp r c b"
    using u by (simp add: pixel_addr_def)
  then show ?thesis
    unfolding in_fb_def pixel_div_mod [OF assms(1-5)] using u assms(7) by simp
qed

lemma in_fb_decompose:
  assumes "0 < Bpp" and "0 < P" and "in_fb P Bpp V H a"
  obtains r c b where "0 \<le> r" "r < H" "0 \<le> c" "c < V" "b < Bpp"
    and "a = pixel_addr P Bpp r c b"
proof -
  let ?r = "a div P" and ?u = "a mod P"
  let ?c = "?u div int Bpp" and ?b = "nat (?u mod int Bpp)"
  have a: "0 \<le> a" "?r < H" "?u < V * int Bpp"
    using assms(3) by (simp_all add: in_fb_def)
  have u: "0 \<le> ?u" using assms(2) by simp
  have r: "0 \<le> ?r" using a(1) assms(2) by (simp add: pos_imp_zdiv_nonneg_iff)
  have c: "0 \<le> ?c" using u assms(1) by (simp add: pos_imp_zdiv_nonneg_iff)
  have "?c * int Bpp + ?u mod int Bpp = ?u" by simp
  moreover have "0 \<le> ?u mod int Bpp" using assms(1) by simp
  ultimately have "?c * int Bpp \<le> ?u" by linarith
  then have "?c * int Bpp < V * int Bpp" using a(3) by linarith
  then have c2: "?c < V" using assms(1) by simp
  have b: "?b < Bpp" using assms(1) by (simp add: nat_less_iff)
  have "a = pixel_addr P Bpp ?r ?c ?b"
    using assms(1) by (simp add: pixel_addr_def)
  with r a(2) c c2 b show ?thesis by (rule that)
qed

lemma reflect_addr_pixel:
  assumes "0 < Bpp" and "V * int Bpp \<le> P" and "0 \<le> c" "c < V" "b < Bpp"
  shows "reflect_addr P Bpp V H (pixel_addr P Bpp r c b) =
     pixel_addr P Bpp (H - 1 - r) (V - 1 - c) b"
  unfolding reflect_addr_def pixel_div_mod [OF assms] by simp

lemma rot90_at:
  assumes "0 < Bpp" and "V * int Bpp \<le> P" and "0 \<le> Y1" and "Y2 \<le> V"
    and "0 \<le> c" "c < V" "b < Bpp"
  shows "store_all (rot90_copy m Bpp P SP V X1 X2 Y1 Y2) fb (pixel_addr P Bpp r c b) =
     (if X1 \<le> r \<and> r < X2 \<and> V - Y2 \<le> c \<and> c < V - Y1
      then m (pixel_addr SP Bpp (V - 1 - c) r b) else fb (pixel_addr P Bpp r c b))"
proof -
  let ?ws = "rot90_copy m Bpp P SP V X1 X2 Y1 Y2" and ?a = "pixel_addr P Bpp r c b"
  have hit: "x = r \<and> y = V - 1 - c \<and> b' = b"
    if "Y1 \<le> y" "y < Y2" "b' < Bpp" "pixel_addr P Bpp x (V - 1 - y) b' = ?a" for x y b'
  proof -
    have "0 \<le> V - 1 - y" "V - 1 - y < V" using that assms(3,4) by linarith+
    from pixel_addr_inj [OF assms(1,2) this that(3) assms(5-7) that(4)]
    show ?thesis by auto
  qed
  show ?thesis
  proof (cases "X1 \<le> r \<and> r < X2 \<and> V - Y2 \<le> c \<and> c < V - Y1")
    case True
    let ?v = "m (pixel_addr SP Bpp (V - 1 - c) r b)"
    have "(?a, ?v) \<in> set ?ws"
      unfolding rot90_mem
      by (rule exI [of _ r], rule exI [of _ "V - 1 - c"], rule exI [of _ b])
         (use True assms(7) in simp)
    moreover have "v' = ?v" if "(?a, v') \<in> set ?ws" for v'
    proof -
      from that obtain x y b' where "Y1 \<le> y" "y < Y2" "b' < Bpp"
        and eq: "?a = pixel_addr P Bpp x (V - 1 - y) b'" "v' = m (pixel_addr SP Bpp y x b')"
        unfolding rot90_mem by blast
      with hit [of y b' x] show ?thesis by simp
    qed
    ultimately have "store_all ?ws fb ?a = ?v" by (rule store_all_in)
    then show ?thesis using True by auto
  next
    case False
    have "?a \<notin> fst ` set ?ws"
    proof
      assume "?a \<in> fst ` set ?ws"
      then obtain v' where "(?a, v') \<in> set ?ws" by force
      then obtain x y b' where xy: "X1 \<le> x" "x < X2" "Y1 \<le> y" "y < Y2" "b' < Bpp"
        and eq: "?a = pixel_addr P Bpp x (V - 1 - y) b'"
        unfolding rot90_mem by blast
      from hit [of y b' x] xy eq have "x = r" "y = V - 1 - c" by simp_all
      with xy False show False by simp
    qed
    then have "store_all ?ws fb ?a = fb ?a" by (rule store_all_other)
    then show ?thesis using False by auto
  qed
qed

lemma rot270_at:
  assumes "0 < Bpp" and "V * int Bpp \<le> P" and "0 \<le> Y1" and "Y2 \<le> V"
    and "0 \<le> c" "c < V" "b < Bpp"
  shows "store_all (rot270_copy m Bpp P SP H X1 X2 Y1 Y2) fb (pixel_addr P Bpp r c b) =
     (if H - X2 \<le> r \<and> r < H - X1 \<and> Y1 \<le> c \<and> c < Y2
      then m (pixel_addr SP Bpp c (H - 1 - r) b) else fb (pixel_addr P Bpp r c b))"
proof -
  let ?ws = "rot270_copy m Bpp P SP H X1 X2 Y1 Y2" and ?a = "pixel_addr P Bpp r c b"
  have hit: "H - 1 - x = r \<and> y = c \<and> b' = b"
    if "Y1 \<le> y" "y < Y2" "b' < Bpp" "pixel_addr P Bpp (H - 1 - x) y b' = ?a" for x y b'
  proof -
    have "0 \<le> y" "y < V" using that assms(3,4) by linarith+
    from pixel_addr_inj [OF assms(1,2) this that(3) assms(5-7) that(4)]
    show ?thesis by auto
  qed
  show ?thesis
  proof (cases "H - X2 \<le> r \<and> r < H - X1 \<and> Y1 \<le> c \<and> c < Y2")
    case True
    let ?v = "m (pixel_addr SP Bpp c (H - 1 - r) b)"
    have "(?a, ?v) \<in> set ?ws"
      unfolding rot270_mem
      by (rule exI [of _ "H - 1 - r"], rule exI [of _ c], rule exI [of _ b])
         (use True assms(7) in simp)
    moreover have "v' = ?v" if "(?a, v') \<in> set ?ws" for v'
    proof -
      from that obtain x y b' where "Y1 \<le> y" "y < Y2" "b' < Bpp"
        and eq: "?a = pixel_addr P Bpp (H - 1 - x) y b'" "v' = m (pixel_addr SP Bpp y x b')"
        unfolding rot270_mem by blast
      with hit [of y b' x] have "H - 1 - x = r" "y = c" "b' = b" by simp_all
      then have "x = H - 1 - r" by linarith
      then show ?thesis using eq(2) \<open>y = c\<close> \<open>b' = b\<close> by simp
    qed
    ultimately have "store_all ?ws fb ?a = ?v" by (rule store_all_in)
    then show ?thesis using True by auto
  next
    case False
    have "?a \<notin> fst ` set ?ws"
    proof
      assume "?a \<in> fst ` set ?ws"
      then obtain v' where "(?a, v') \<in> set ?ws" by force
      then obtain x y b' where xy: "X1 \<le> x" "x < X2" "Y1 \<le> y" "y < Y2" "b' < Bpp"
        and eq: "?a = pixel_addr P Bpp (H - 1 - x) y b'"
        unfolding rot270_mem by blast
      from hit [of y b' x] xy eq have "H - 1 - x = r" "y = c" by simp_all
      with xy False show False by simp
    qed
    then have "store_all ?ws fb ?a = fb ?a" by (rule store_all_other)
    then show ?thesis using False by auto
  qed
qed

lemma rot90_in_fb:
  assumes "0 < Bpp" and "V * int Bpp \<le> P" and "0 \<le> X1" "X2 \<le> H" "0 \<le> Y1" "Y2 \<le> V"
    and "(a, v) \<in> set (rot90_copy m Bpp P SP V X1 X2 Y1 Y2)"
  shows "in_fb P Bpp V H a"
proof -
  from assms(7) obtain x y b where xy: "X1 \<le> x" "x < X2" "Y1 \<le> y" "y < Y2" "b < Bpp"
    and a: "a = pixel_addr P Bpp x (V - 1 - y) b"
    unfolding rot90_mem by blast
  have "0 \<le> V - 1 - y" "V - 1 - y < V" "0 \<le> x" "x < H"
    using xy assms(3-6) by linarith+
  from in_fb_pixel [OF assms(1,2) this(1,2) xy(5) this(3,4)] show ?thesis
    unfolding a .
qed

lemma rot270_in_fb:
  assumes "0 < Bpp" and "V * int Bpp \<le> P" and "0 \<le> X1" "X2 \<le> H" "0 \<le> Y1" "Y2 \<le> V"
    and "(a, v) \<in> set (rot270_copy m Bpp P SP H X1 X2 Y1 Y2)"
  shows "in_fb P Bpp V H a"
proof -
  from assms(7) obtain x y b where xy: "X1 \<le> x" "x < X2" "Y1 \<le> y" "y < Y2" "b < Bpp"
    and a: "a = pixel_addr P Bpp (H - 1 - x) y b"
    unfolding rot270_mem by blast
  have "0 \<le> y" "y < V" "0 \<le> H - 1 - x" "H - 1 - x < H"
    using xy assms(3-6) by linarith+
  from in_fb_pixel [OF assms(1,2) this(1,2) xy(5) this(3,4)] show ?thesis
    unfolding a .
qed

subsection \<open>Repeating and sequencing boxes\<close>





lemma box_loop_append:
  "after (box_loop body (bs @ cs)) fb =
     Option.bind (after (box_loop body bs) fb) (after (box_loop body cs))"
proof (induction bs arbitrary: fb)
  case Nil
  show ?case by (simp add: after_def)
next
  case (Cons b bs)
  show ?case
  proof (cases "body b")
    case None
    then show ?thesis by (simp add: after_def)
  next
    case (Some t)
    have step: "after (box_loop body (b # xs)) fb = after (box_loop body xs) (run t fb)" for xs
      using Some by (cases "box_loop body xs") (simp_all add: after_def run_append)
    show ?thesis
      unfolding append_Cons step by (rule Cons.IH)
  qed
qed

subsection \<open>The last store to an address\<close>

lemma store_all_append: "store_all (xs @ ys) fb = store_all ys (store_all xs fb)"
  by (induction xs arbitrary: fb) auto

lemma upt_split:
  assumes "i < w"
  shows "[0..<w] = [0..<i] @ i # [Suc i..<w]"
proof -
  have "[0..<i + (w - i)] = [0..<i] @ [i..<i + (w - i)]"
    by (rule upt_add_eq_append) simp
  moreover have "i + (w - i) = w" using assms by simp
  ultimately have "[0..<w] = [0..<i] @ [i..<w]" by simp
  then show ?thesis using assms by (simp add: upt_conv_Cons)
qed

lemma copy_region_last:
  assumes i: "i0 < w" and k: "k0 < n" and b: "b0 < Bpp"
    and u: "int k0 * int Bpp + int b0 < P"
  shows "store_all (copy_region f Bpp w n D P S sc sp) fb
           (D + int i0 * P + int k0 * int Bpp + int b0) =
         f (S + int i0 * sc + int k0 * sp + int b0)"
proof -
  let ?row = "\<lambda>i. copy_column f Bpp n (D + int i * P) (S + int i * sc) sp"
  let ?a = "D + int i0 * P + int k0 * int Bpp + int b0"
  let ?v = "f (S + int i0 * sc + int k0 * sp + int b0)"
  have u0: "0 \<le> int k0 * int Bpp" by simp
  have P0: "0 < P" using u u0 by linarith
  have cr: "copy_region f Bpp w n D P S sc sp =
      concat (map ?row [0..<i0]) @ ?row i0 @ concat (map ?row [Suc i0..<w])"
    unfolding copy_region_def upt_split [OF i] by simp
  have later: "?a \<notin> fst ` set (concat (map ?row [Suc i0..<w]))"
  proof
    assume "?a \<in> fst ` set (concat (map ?row [Suc i0..<w]))"
    then obtain v' j where j: "Suc i0 \<le> j" and "(?a, v') \<in> set (?row j)"
      by force
    then obtain k' b' where eq: "?a = D + int j * P + int k' * int Bpp + int b'"
      unfolding copy_column_mem by auto
    have "int (Suc i0) * P \<le> int j * P"
      using j P0 by (intro mult_right_mono) simp_all
    then have "int i0 * P + P \<le> int j * P"
      by (simp add: algebra_simps)
    moreover have "0 \<le> int k' * int Bpp" by simp
    ultimately show False
      using eq u by linarith
  qed
  have row: "store_all (?row i0) g ?a = ?v" for g
  proof (rule store_all_in)
    show "(?a, ?v) \<in> set (?row i0)"
      unfolding copy_column_mem using k b by blast
  next
    fix v'
    assume "(?a, v') \<in> set (?row i0)"
    then obtain k' b' where kb: "k' < n" "b' < Bpp"
      and eq: "?a = D + int i0 * P + int k' * int Bpp + int b'"
      and v': "v' = f (S + int i0 * sc + int k' * sp + int b')"
      unfolding copy_column_mem by auto
    have "int k0 * int Bpp + int b0 = int k' * int Bpp + int b'"
      using eq by simp
    from div_mod_unique [of "int b0" "int Bpp" "int b'" "int k0" "int k'", OF _ _ _ _ this]
    have "k0 = k'" "b0 = b'" using b kb by simp_all
    then show "v' = ?v" using v' by simp
  qed
  show ?thesis
    unfolding cr store_all_append using store_all_other [OF later] row by simp
qed

lemma rot270_at_last:
  assumes Y1: "0 \<le> Y1" and r: "H - X2 \<le> r" "r < H - X1" and c: "Y1 \<le> c" "c < Y2"
    and b: "b < Bpp" and u: "(c - Y1) * int Bpp + int b < P"
  shows "store_all (rot270_copy m Bpp P SP H X1 X2 Y1 Y2) fb (pixel_addr P Bpp r c b) =
     m (pixel_addr SP Bpp c (H - 1 - r) b)"
proof -
  let ?i = "nat (r - (H - X2))" and ?k = "nat (c - Y1)"
  have i: "?i < nat (X2 - X1)" and k: "?k < nat (Y2 - Y1)"
    using r c by linarith+
  have ii: "int ?i = r - (H - X2)" and kk: "int ?k = c - Y1"
    using r c by simp_all
  have u': "int ?k * int Bpp + int b < P"
    unfolding kk by (rule u)
  have a: "pixel_addr P Bpp r c b =
      pixel_addr P Bpp (H - X2) Y1 0 + int ?i * P + int ?k * int Bpp + int b"
    unfolding ii kk by (simp add: pixel_addr_def algebra_simps)
  have s: "pixel_addr SP Bpp c (H - 1 - r) b =
      pixel_addr SP Bpp Y1 (X2 - 1) 0 + int ?i * (- int Bpp) + int ?k * SP + int b"
    unfolding ii kk by (simp add: pixel_addr_def algebra_simps)
  show ?thesis
    unfolding rot270_copy_def a s by (rule copy_region_last [OF i k b u'])
qed

subsection \<open>The accesses of a list of boxes\<close>



subsection \<open>Boxes of zero width\<close>

lemma box_loop_nil_all:
  "(\<And>b. b \<in> set bs \<Longrightarrow> body b = Some []) \<Longrightarrow> box_loop body bs = Some []"
  by (induction bs) simp_all

lemma rot_box_zero_width:
  assumes "x1 pbox = x2 pbox"
  shows "rot_box BitmapBytePad d pScrn pCir pbox = Some []"
  using assms
  by (cases d)
     (simp_all add: cirRefreshArea8_box_def cirRefreshArea16_box_def cirRefreshArea24_box_def
        cirRefreshArea32_box_def Let_def while_dec_zero)

lemma cirRefreshArea_box_zero_width:
  assumes "x1 pbox = x2 pbox" and "y1 pbox \<le> y2 pbox"
  shows "cirRefreshArea_box BitmapBytePad pScrn pCir pbox = Some []"
proof -
  have m: "memcpy_c m dst src 0 = Some []" for m dst src
    by (simp add: memcpy_c_def)
  have "while_dec n (\<lambda>(dst, src). Some ((\<lambda>_ _. []) dst src)) (\<lambda>(dst, src). (dst + p, src + q)) s
      = Some []" if "0 \<le> n" for n p q and s :: "int \<times> int"
    using that by (cases s) (simp only: while_dec_affine, simp)
  then show ?thesis
    using assms by (simp add: cirRefreshArea_box_def Let_def m i32_consts)
qed

lemma rot_refresh_loop:
  "rot_refresh BitmapBytePad d pScrn pCir bs = box_loop (rot_box BitmapBytePad d pScrn pCir) bs"
  by (cases d)
     (simp_all add: cirRefreshArea8_def cirRefreshArea16_def cirRefreshArea24_def
        cirRefreshArea32_def)

subsection \<open>Buffers below 2 GiB\<close>

lemma bytes_pp_pos: "0 < bytes_pp d"
  by (cases d) simp_all

lemma fb_sizes:
  fixes V H P :: int and Bpp :: nat
  assumes "0 < Bpp" and "0 < V" and "0 < H" and "V * int Bpp \<le> P" and "H * P < 2 ^ 31"
  shows "0 < P" and "P < 2 ^ 31" and "H < 2 ^ 31" and "V * int Bpp < 2 ^ 31"
    and "int Bpp \<le> P"
    and "\<And>r. r \<le> H \<Longrightarrow> r * int Bpp < 2 ^ 31"
    and "\<And>c. c \<le> V \<Longrightarrow> c * int Bpp < 2 ^ 31"
    and "\<And>r. r \<le> H \<Longrightarrow> r * P < 2 ^ 31"
proof -
  have B: "1 \<le> int Bpp" using assms(1) by simp
  have "1 * int Bpp \<le> V * int Bpp"
    using assms(2) by (intro mult_right_mono) simp_all
  then show BP: "int Bpp \<le> P" using assms(4) by simp
  then show P0: "0 < P" using B by linarith
  have "1 * P \<le> H * P"
    using assms(3) P0 by (intro mult_right_mono) simp_all
  then show P1: "P < 2 ^ 31" using assms(5) by simp
  have "H * 1 \<le> H * P"
    using assms(3) P0 by (intro mult_left_mono) simp_all
  then show "H < 2 ^ 31" using assms(5) by simp
  show "V * int Bpp < 2 ^ 31" using assms(4) P1 by linarith
  have HB: "H * int Bpp \<le> H * P"
    using assms(3) BP by (intro mult_left_mono) simp_all
  show "r * int Bpp < 2 ^ 31" if "r \<le> H" for r
  proof -
    have "r * int Bpp \<le> H * int Bpp"
      using that by (intro mult_right_mono) simp_all
    then show ?thesis using HB assms(5) by linarith
  qed
  show "c * int Bpp < 2 ^ 31" if "c \<le> V" for c
  proof -
    have "c * int Bpp \<le> V * int Bpp"
      using that by (intro mult_right_mono) simp_all
    then show ?thesis using assms(4) P1 by linarith
  qed
  show "r * P < 2 ^ 31" if "r \<le> H" for r
  proof -
    have "r * P \<le> H * P"
      using that P0 by (intro mult_right_mono) simp_all
    then show ?thesis using assms(5) by linarith
  qed
qed

lemma shadow_sizes:
  fixes V SP :: int
  assumes "0 < V" and "0 \<le> SP" and "V * SP < 2 ^ 31"
  shows "SP < 2 ^ 31" and "\<And>Y. Y \<le> V \<Longrightarrow> Y * SP < 2 ^ 31"
proof -
  have "1 * SP \<le> V * SP"
    using assms(1,2) by (intro mult_right_mono) simp_all
  then show "SP < 2 ^ 31" using assms(3) by simp
  show "Y * SP < 2 ^ 31" if "Y \<le> V" for Y
  proof -
    have "Y * SP \<le> V * SP"
      using that assms(2) by (intro mult_right_mono) simp_all
    then show ?thesis using assms(3) by linarith
  qed
qed

subsection \<open>One box of a screen whose buffers are below 2 GiB\<close>

lemma rot90_box_writes:
  assumes rot: "rotateC pCir = 1"
    and x: "0 \<le> x1 pbox" "x1 pbox \<le> x2 pbox" "x2 pbox \<le> virtualY pScrn"
    and y: "0 \<le> y1 pbox" "y1 pbox \<le> y2 pbox"
      "round_up (group_size d) (y2 pbox) \<le> virtualX pScrn"
    and pos: "0 < virtualX pScrn" "0 < virtualY pScrn"
    and P: "virtualX pScrn * int (bytes_pp d) \<le> fb_pitch BitmapBytePad d pScrn"
    and sz: "virtualY pScrn * fb_pitch BitmapBytePad d pScrn < 2 ^ 31"
    and dv: "src_unit d dvd ShadowPitch pCir"
    and sp: "0 \<le> ShadowPitch pCir" "virtualX pScrn * ShadowPitch pCir < 2 ^ 31"
  shows "map_option writes (rot_box BitmapBytePad d pScrn pCir pbox) =
     Some (rot90_copy (ShadowPtr pCir) (bytes_pp d) (fb_pitch BitmapBytePad d pScrn)
             (ShadowPitch pCir) (virtualX pScrn) (x1 pbox) (x2 pbox)
             (round_down (group_size d) (y1 pbox)) (round_up (group_size d) (y2 pbox)))"
proof -
  note f = fb_sizes [OF bytes_pp_pos pos P sz]
  note s = shadow_sizes [OF pos(1) sp]
  have "x1 pbox \<le> virtualY pScrn" using x by linarith
  note x1P = f(8) [OF this]
  show ?thesis
    by (rule rot_box_writes_90 [OF rot x(2) y(2) y(1) x(1) less_imp_le [OF f(1)] x1P y(3)
          f(4) dv sp(1) s(1) s(2) [OF y(3)] f(6) [OF x(3)]])
qed

lemma rot270_box_writes:
  assumes rot: "rotateC pCir = - 1"
    and x: "0 \<le> x1 pbox" "x1 pbox \<le> x2 pbox" "x2 pbox \<le> virtualY pScrn"
    and y: "0 \<le> y1 pbox" "y1 pbox \<le> y2 pbox" "y2 pbox \<le> virtualX pScrn"
    and pos: "0 < virtualX pScrn" "0 < virtualY pScrn"
    and P: "virtualX pScrn * int (bytes_pp d) \<le> fb_pitch BitmapBytePad d pScrn"
    and sz: "virtualY pScrn * fb_pitch BitmapBytePad d pScrn < 2 ^ 31"
    and dv: "src_unit d dvd ShadowPitch pCir"
    and sp: "0 \<le> ShadowPitch pCir" "virtualX pScrn * ShadowPitch pCir < 2 ^ 31"
  shows "map_option writes (rot_box BitmapBytePad d pScrn pCir pbox) =
     Some (rot270_copy (ShadowPtr pCir) (bytes_pp d) (fb_pitch BitmapBytePad d pScrn)
             (ShadowPitch pCir) (virtualY pScrn) (x1 pbox) (x2 pbox)
             (round_down (group_size d) (y1 pbox)) (round_up (group_size d) (y2 pbox)))"
proof -
  note f = fb_sizes [OF bytes_pp_pos pos P sz]
  note s = shadow_sizes [OF pos(1) sp]
  have y1V: "y1 pbox \<le> virtualX pScrn" using y by linarith
  have Y1V: "round_down (group_size d) (y1 pbox) \<le> virtualX pScrn"
    using round_down_le [OF group_pos, of d "y1 pbox"] y1V by linarith
  have hx: "virtualY pScrn - x2 pbox \<le> virtualY pScrn" using x by linarith
  then have hx': "virtualY pScrn - x2 pbox < 2 ^ 31" using f(3) by linarith
  show ?thesis
    by (rule rot_box_writes_270 [OF rot x(2) y(2) y(1) x(3) hx' less_imp_le [OF f(1)]
          f(8) [OF hx] f(7) [OF y1V] dv sp(1) s(1) s(2) [OF Y1V] x(1) f(6) [OF x(3)]])
qed

subsection \<open>The copy without rotation\<close>

lemma memcpy_writes:
  "0 \<le> n \<Longrightarrow> map_option writes (memcpy_c m dst src n) = Some (copy_column m 1 (nat n) dst src 1)"
  by (simp add: memcpy_c_def writes_concat o_def copy_column_def copy_pixel_def upt_1)

lemma cirRefreshArea_box_writes:
  assumes w: "0 \<le> (x2 pbox - x1 pbox) * drop_bit 3 (bitsPerPixel pScrn)"
      "(x2 pbox - x1 pbox) * drop_bit 3 (bitsPerPixel pScrn) < 2 ^ 31"
    and le: "y1 pbox \<le> y2 pbox"
    and d: "in_int (y1 pbox * BitmapBytePad (i32 (displayWidth pScrn * bitsPerPixel pScrn)))"
      "in_int (x1 pbox * drop_bit 3 (bitsPerPixel pScrn))"
  shows "map_option writes (cirRefreshArea_box BitmapBytePad pScrn pCir pbox) =
     Some (copy_region (ShadowPtr pCir) 1 (nat (y2 pbox - y1 pbox))
             (nat ((x2 pbox - x1 pbox) * drop_bit 3 (bitsPerPixel pScrn)))
             (y1 pbox * BitmapBytePad (i32 (displayWidth pScrn * bitsPerPixel pScrn))
                + x1 pbox * drop_bit 3 (bitsPerPixel pScrn))
             (BitmapBytePad (i32 (displayWidth pScrn * bitsPerPixel pScrn)))
             (i32 (y1 pbox * ShadowPitch pCir) + x1 pbox * drop_bit 3 (bitsPerPixel pScrn))
             (ShadowPitch pCir) 1)"
proof -
  let ?w = "(x2 pbox - x1 pbox) * drop_bit 3 (bitsPerPixel pScrn)"
  have e_w: "i32 ?w = ?w"
    by (rule i32_id [OF in_int_pos [OF w]])
  have e_y: "i32 (y1 pbox * BitmapBytePad (i32 (displayWidth pScrn * bitsPerPixel pScrn))) =
      y1 pbox * BitmapBytePad (i32 (displayWidth pScrn * bitsPerPixel pScrn))"
    by (rule i32_id [OF d(1)])
  have e_x: "i32 (x1 pbox * drop_bit 3 (bitsPerPixel pScrn)) =
      x1 pbox * drop_bit 3 (bitsPerPixel pScrn)"
    by (rule i32_id [OF d(2)])
  have inner: "map_option writes (memcpy_c (ShadowPtr pCir) a b ?w) =
      Some (copy_column (ShadowPtr pCir) 1 (nat ?w) a b 1)" for a b
    using w(1) by (rule memcpy_writes)
  show ?thesis
    unfolding cirRefreshArea_box_def Let_def e_w e_y e_x
      while_dec_hom [of writes, OF writes_concat inner] copy_region_def
    using le by simp
qed

lemma plain_box_writes:
  assumes Bpp: "Bpp = drop_bit 3 (bitsPerPixel pScrn)" "0 < Bpp"
    and FBPitch: "FBPitch = BitmapBytePad (i32 (displayWidth pScrn * bitsPerPixel pScrn))"
    and x: "0 \<le> x1 pbox" "x1 pbox \<le> x2 pbox" "x2 pbox \<le> virtualX pScrn"
    and y: "0 \<le> y1 pbox" "y1 pbox \<le> y2 pbox" "y2 pbox \<le> virtualY pScrn"
    and pos: "0 < virtualY pScrn"
    and P: "virtualX pScrn * Bpp \<le> FBPitch"
    and sz: "virtualY pScrn * FBPitch < 2 ^ 31"
  shows "map_option writes (cirRefreshArea_box BitmapBytePad pScrn pCir pbox) =
     Some (copy_region (ShadowPtr pCir) 1 (nat (y2 pbox - y1 pbox))
             (nat ((x2 pbox - x1 pbox) * Bpp))
             (y1 pbox * FBPitch + x1 pbox * Bpp) FBPitch
             (i32 (y1 pbox * ShadowPitch pCir) + x1 pbox * Bpp) (ShadowPitch pCir) 1)"
proof -
  have xB: "x2 pbox * Bpp \<le> virtualX pScrn * Bpp"
    using x(3) Bpp(2) by (intro mult_right_mono) simp_all
  have F0: "0 \<le> FBPitch"
  proof -
    have "0 \<le> x2 pbox * Bpp" using x Bpp(2) by simp
    then show ?thesis using xB P by linarith
  qed
  have "1 * FBPitch \<le> virtualY pScrn * FBPitch"
    using pos F0 by (intro mult_right_mono) simp_all
  then have F1: "FBPitch < 2 ^ 31" using sz by simp
  have x1B: "0 \<le> x1 pbox * Bpp" "x1 pbox * Bpp \<le> x2 pbox * Bpp"
    using x Bpp(2) by (simp_all add: mult_right_mono)
  have w: "0 \<le> (x2 pbox - x1 pbox) * Bpp" "(x2 pbox - x1 pbox) * Bpp < 2 ^ 31"
    using x1B xB P F1 by (simp_all add: algebra_simps)
  have dx: "in_int (x1 pbox * Bpp)"
    using x1B xB P F1 by (simp add: in_int_def)
  have "y1 pbox \<le> virtualY pScrn" using y by linarith
  then have "y1 pbox * FBPitch \<le> virtualY pScrn * FBPitch"
    using F0 by (intro mult_right_mono) simp_all
  moreover have "0 \<le> y1 pbox * FBPitch" using y(1) F0 by simp
  ultimately have dy: "in_int (y1 pbox * FBPitch)"
    using sz by (simp add: in_int_def)
  show ?thesis
    using cirRefreshArea_box_writes [of pbox pScrn BitmapBytePad pCir]
      w y(2) dy dx unfolding Bpp(1) FBPitch by simp
qed

lemma plain_box_writes_exact:
  assumes Bpp: "Bpp = drop_bit 3 (bitsPerPixel pScrn)" "0 < Bpp"
    and FBPitch: "FBPitch = BitmapBytePad (i32 (displayWidth pScrn * bitsPerPixel pScrn))"
    and x: "0 \<le> x1 pbox" "x1 pbox \<le> x2 pbox" "x2 pbox \<le> virtualX pScrn"
    and y: "0 \<le> y1 pbox" "y1 pbox \<le> y2 pbox" "y2 pbox \<le> virtualY pScrn"
    and pos: "0 < virtualY pScrn"
    and P: "virtualX pScrn * Bpp \<le> FBPitch"
    and sz: "virtualY pScrn * FBPitch < 2 ^ 31"
    and sp: "0 \<le> ShadowPitch pCir" "virtualY pScrn * ShadowPitch pCir < 2 ^ 31"
  shows "map_option writes (cirRefreshArea_box BitmapBytePad pScrn pCir pbox) =
     Some (copy_region (ShadowPtr pCir) 1 (nat (y2 pbox - y1 pbox))
             (nat ((x2 pbox - x1 pbox) * Bpp))
             (y1 pbox * FBPitch + x1 pbox * Bpp) FBPitch
             (y1 pbox * ShadowPitch pCir + x1 pbox * Bpp) (ShadowPitch pCir) 1)"
proof -
  have "y1 pbox \<le> virtualY pScrn" using y by linarith
  from shadow_sizes(2) [OF pos sp this]
  have "y1 pbox * ShadowPitch pCir < 2 ^ 31" .
  moreover have "0 \<le> y1 pbox * ShadowPitch pCir" using y(1) sp(1) by simp
  ultimately have "in_int (y1 pbox * ShadowPitch pCir)"
    by (simp add: in_int_def)
  then have "i32 (y1 pbox * ShadowPitch pCir) = y1 pbox * ShadowPitch pCir"
    by (rule i32_id)
  with plain_box_writes [where BitmapBytePad = BitmapBytePad and pCir = pCir,
      OF Bpp FBPitch x y pos P sz]
  show ?thesis by simp
qed


subsection \<open>The scanlines read\<close>

lemma rot_box_reads_set:
  assumes "rotateC pCir = 1 \<or> rotateC pCir = - 1"
    and x: "0 \<le> x1 pbox" "x1 pbox \<le> x2 pbox" "x2 pbox * int (bytes_pp d) < 2 ^ 31"
    and y: "0 \<le> y1 pbox" "y1 pbox \<le> y2 pbox"
    and dv: "src_unit d dvd ShadowPitch pCir"
    and sp: "0 \<le> ShadowPitch pCir" "ShadowPitch pCir < 2 ^ 31"
      "round_up (group_size d) (y2 pbox) * ShadowPitch pCir < 2 ^ 31"
  shows "\<exists>t. rot_box BitmapBytePad d pScrn pCir pbox = Some t
     \<and> set (reads t) =
         {pixel_addr (ShadowPitch pCir) (bytes_pp d) y x b | x y b.
            x1 pbox \<le> x \<and> x < x2 pbox
            \<and> round_down (group_size d) (y1 pbox) \<le> y \<and> y < round_up (group_size d) (y2 pbox)
            \<and> b < bytes_pp d}"
  using assms(1)
proof
  assume rot: "rotateC pCir = 1"
  from rot_box_reads_90 [OF rot x(2) y(2) y(1) dv sp x(1,3), of BitmapBytePad pScrn 0 0]
  obtain t where t: "rot_box BitmapBytePad d pScrn pCir pbox = Some t"
    and r: "reads t = map snd (rot90_copy (\<lambda>a. a) (bytes_pp d) 0
             (ShadowPitch pCir) 0 (x1 pbox) (x2 pbox)
             (round_down (group_size d) (y1 pbox)) (round_up (group_size d) (y2 pbox)))"
    by auto
  have "set (reads t) = {pixel_addr (ShadowPitch pCir) (bytes_pp d) y x b | x y b.
            x1 pbox \<le> x \<and> x < x2 pbox
            \<and> round_down (group_size d) (y1 pbox) \<le> y \<and> y < round_up (group_size d) (y2 pbox)
            \<and> b < bytes_pp d}"
    unfolding r set_map by (rule set_eqI) (force simp: image_iff rot90_mem)
  with t show ?thesis by blast
next
  assume rot: "rotateC pCir = - 1"
  have "round_down (group_size d) (y1 pbox) \<le> round_up (group_size d) (y2 pbox)"
    using round_down_le [OF group_pos, of d "y1 pbox"] round_up_ge [OF group_pos, of "y2 pbox" d]
      y(2) by linarith
  then have "round_down (group_size d) (y1 pbox) * ShadowPitch pCir
      \<le> round_up (group_size d) (y2 pbox) * ShadowPitch pCir"
    using sp(1) by (intro mult_right_mono) simp_all
  then have sy: "round_down (group_size d) (y1 pbox) * ShadowPitch pCir < 2 ^ 31"
    using sp(3) by linarith
  from rot_box_reads_270 [OF rot x(2) y(2) y(1) dv sp(1,2) sy x(1,3), of BitmapBytePad pScrn 0 0]
  obtain t where t: "rot_box BitmapBytePad d pScrn pCir pbox = Some t"
    and r: "reads t = map snd (rot270_copy (\<lambda>a. a) (bytes_pp d) 0
             (ShadowPitch pCir) 0 (x1 pbox) (x2 pbox)
             (round_down (group_size d) (y1 pbox)) (round_up (group_size d) (y2 pbox)))"
    by auto
  have "set (reads t) = {pixel_addr (ShadowPitch pCir) (bytes_pp d) y x b | x y b.
            x1 pbox \<le> x \<and> x < x2 pbox
            \<and> round_down (group_size d) (y1 pbox) \<le> y \<and> y < round_up (group_size d) (y2 pbox)
            \<and> b < bytes_pp d}"
    unfolding r set_map by (rule set_eqI) (force simp: image_iff rot270_mem)
  with t show ?thesis by blast
qed

subsection \<open>Stores inside the frame buffer\<close>

lemma map_option_SomeD:
  "map_option f r = Some y \<Longrightarrow> \<exists>t. r = Some t \<and> f t = y"
  by (cases r) simp_all

lemma stores_in_fb_iff:
  "stores_in_fb P Bpp V H r = Some True \<longleftrightarrow>
     (\<exists>t. r = Some t \<and> (\<forall>a v. (a, v) \<in> set (writes t) \<longrightarrow> in_fb P Bpp V H a))"
  by (cases r) (auto simp: stores_in_fb_def list_all_iff)

lemma stores_in_fbI:
  assumes "r = Some t" and "\<And>a v. (a, v) \<in> set (writes t) \<Longrightarrow> in_fb P Bpp V H a"
  shows "stores_in_fb P Bpp V H r = Some True"
  unfolding stores_in_fb_iff using assms by blast

lemma stores_in_fb_loop:
  assumes "\<And>b. b \<in> set bs \<Longrightarrow> stores_in_fb P Bpp V H (body b) = Some True"
  shows "stores_in_fb P Bpp V H (box_loop body bs) = Some True"
  using assms
proof (induction bs)
  case Nil
  show ?case by (simp add: stores_in_fb_def)
next
  case (Cons b bs)
  from Cons.prems [of b] obtain t where t: "body b = Some t"
    and wt: "list_all (\<lambda>(a, v). in_fb P Bpp V H a) (writes t)"
    by (cases "body b") (simp_all add: stores_in_fb_def)
  from Cons.IH Cons.prems obtain u where u: "box_loop body bs = Some u"
    and wu: "list_all (\<lambda>(a, v). in_fb P Bpp V H a) (writes u)"
    by (cases "box_loop body bs") (simp_all add: stores_in_fb_def)
  show ?case
    by (simp add: stores_in_fb_def t u writes_append wt wu)
qed

lemma rot_box_in_fb:
  assumes rot: "rotateC pCir = 1 \<or> rotateC pCir = - 1"
    and x: "0 \<le> x1 pbox" "x1 pbox \<le> x2 pbox" "x2 pbox \<le> virtualY pScrn"
    and y: "0 \<le> y1 pbox" "y1 pbox \<le> y2 pbox"
      "round_up (group_size d) (y2 pbox) \<le> virtualX pScrn"
    and pos: "0 < virtualX pScrn" "0 < virtualY pScrn"
    and P: "virtualX pScrn * int (bytes_pp d) \<le> fb_pitch BitmapBytePad d pScrn"
    and sz: "virtualY pScrn * fb_pitch BitmapBytePad d pScrn < 2 ^ 31"
  shows "stores_in_fb (fb_pitch BitmapBytePad d pScrn) (bytes_pp d) (virtualX pScrn)
           (virtualY pScrn) (rot_box BitmapBytePad d pScrn pCir pbox) = Some True"
proof -
  note f = fb_sizes [OF bytes_pp_pos pos P sz]
  have Y1: "0 \<le> round_down (group_size d) (y1 pbox)"
    using group_pos y(1) by (rule round_down_nonneg)
  have y1V: "y1 pbox \<le> virtualX pScrn"
    using round_up_ge [OF group_pos, of "y2 pbox" d] y by linarith
  have x1H: "x1 pbox \<le> virtualY pScrn" using x by linarith
  have hx: "virtualY pScrn - x2 pbox \<le> virtualY pScrn" using x by linarith
  then have hx': "virtualY pScrn - x2 pbox < 2 ^ 31" using f(3) by linarith
  from rot show ?thesis
  proof
    assume r: "rotateC pCir = 1"
    have "map_option (\<lambda>t. map fst (writes t)) (rot_box BitmapBytePad d pScrn pCir pbox) =
        Some (map fst (rot90_copy (\<lambda>a. a) (bytes_pp d) (fb_pitch BitmapBytePad d pScrn) 0
               (virtualX pScrn) (x1 pbox) (x2 pbox)
               (round_down (group_size d) (y1 pbox)) (round_up (group_size d) (y2 pbox))))"
      by (rule rot_box_waddrs_90 [OF r x(2) y(2) y(1) x(1) less_imp_le [OF f(1)]
            f(8) [OF x1H] y(3) f(4)])
    from map_option_SomeD [OF this]
    obtain t where t: "rot_box BitmapBytePad d pScrn pCir pbox = Some t"
      and w: "map fst (writes t) =
          map fst (rot90_copy (\<lambda>a. a) (bytes_pp d) (fb_pitch BitmapBytePad d pScrn) 0
               (virtualX pScrn) (x1 pbox) (x2 pbox)
               (round_down (group_size d) (y1 pbox)) (round_up (group_size d) (y2 pbox)))"
      by (elim exE conjE)
    show ?thesis
    proof (rule stores_in_fbI [OF t])
      fix a v
      assume "(a, v) \<in> set (writes t)"
      then have "a \<in> set (map fst (writes t))" by force
      then obtain s where "(a, s) \<in> set (rot90_copy (\<lambda>a. a) (bytes_pp d)
          (fb_pitch BitmapBytePad d pScrn) 0 (virtualX pScrn) (x1 pbox) (x2 pbox)
          (round_down (group_size d) (y1 pbox)) (round_up (group_size d) (y2 pbox)))"
        unfolding w by auto
      then show "in_fb (fb_pitch BitmapBytePad d pScrn) (bytes_pp d) (virtualX pScrn)
          (virtualY pScrn) a"
        by (rule rot90_in_fb [OF bytes_pp_pos P x(1,3) Y1 y(3)])
    qed
  next
    assume r: "rotateC pCir = - 1"
    have "map_option (\<lambda>t. map fst (writes t)) (rot_box BitmapBytePad d pScrn pCir pbox) =
        Some (map fst (rot270_copy (\<lambda>a. a) (bytes_pp d) (fb_pitch BitmapBytePad d pScrn) 0
               (virtualY pScrn) (x1 pbox) (x2 pbox)
               (round_down (group_size d) (y1 pbox)) (round_up (group_size d) (y2 pbox))))"
      by (rule rot_box_waddrs_270 [OF r x(2) y(2) y(1) x(3) hx' less_imp_le [OF f(1)]
            f(8) [OF hx] f(7) [OF y1V]])
    from map_option_SomeD [OF this]
    obtain t where t: "rot_box BitmapBytePad d pScrn pCir pbox = Some t"
      and w: "map fst (writes t) =
          map fst (rot270_copy (\<lambda>a. a) (bytes_pp d) (fb_pitch BitmapBytePad d pScrn) 0
               (virtualY pScrn) (x1 pbox) (x2 pbox)
               (round_down (group_size d) (y1 pbox)) (round_up (group_size d) (y2 pbox)))"
      by (elim exE conjE)
    show ?thesis
    proof (rule stores_in_fbI [OF t])
      fix a v
      assume "(a, v) \<in> set (writes t)"
      then have "a \<in> set (map fst (writes t))" by force
      then obtain s where "(a, s) \<in> set (rot270_copy (\<lambda>a. a) (bytes_pp d)
          (fb_pitch BitmapBytePad d pScrn) 0 (virtualY pScrn) (x1 pbox) (x2 pbox)
          (round_down (group_size d) (y1 pbox)) (round_up (group_size d) (y2 pbox)))"
        unfolding w by auto
      then show "in_fb (fb_pitch BitmapBytePad d pScrn) (bytes_pp d) (virtualX pScrn)
          (virtualY pScrn) a"
        by (rule rot270_in_fb [OF bytes_pp_pos P x(1,3) Y1 y(3)])
    qed
  qed
qed

lemma in_fb_row:
  assumes "0 \<le> r" "r < H" "0 \<le> u" "u < V * int Bpp" "V * int Bpp \<le> P"
  shows "in_fb P Bpp V H (r * P + u)"
proof -
  have P: "0 < P" and uP: "u < P" using assms by linarith+
  have "0 \<le> r * P" using assms(1) P by simp
  then have "0 \<le> r * P + u" using assms(3) by simp
  moreover have "(r * P + u) div P = r" "(r * P + u) mod P = u"
    using assms(3) uP P by (simp_all add: div_pos_pos_trivial mod_pos_pos_trivial)
  ultimately show ?thesis
    unfolding in_fb_def using assms(2,4) by simp
qed

lemma cirRefreshArea_box_in_fb:
  assumes Bpp: "Bpp = drop_bit 3 (bitsPerPixel pScrn)" "0 < Bpp"
    and FBPitch: "FBPitch = BitmapBytePad (i32 (displayWidth pScrn * bitsPerPixel pScrn))"
    and x: "0 \<le> x1 pbox" "x1 pbox \<le> x2 pbox" "x2 pbox \<le> virtualX pScrn"
    and y: "0 \<le> y1 pbox" "y1 pbox \<le> y2 pbox" "y2 pbox \<le> virtualY pScrn"
    and pos: "0 < virtualY pScrn"
    and P: "virtualX pScrn * Bpp \<le> FBPitch"
    and sz: "virtualY pScrn * FBPitch < 2 ^ 31"
  shows "stores_in_fb FBPitch (nat Bpp) (virtualX pScrn) (virtualY pScrn)
           (cirRefreshArea_box BitmapBytePad pScrn pCir pbox) = Some True"
proof -
  let ?h = "nat (y2 pbox - y1 pbox)" and ?w = "nat ((x2 pbox - x1 pbox) * Bpp)"
  from map_option_SomeD [OF plain_box_writes [where BitmapBytePad = BitmapBytePad
      and pCir = pCir, OF Bpp FBPitch x y pos P sz]]
  obtain t where t: "cirRefreshArea_box BitmapBytePad pScrn pCir pbox = Some t"
    and wt: "writes t = copy_region (ShadowPtr pCir) 1 ?h ?w
               (y1 pbox * FBPitch + x1 pbox * Bpp) FBPitch
               (i32 (y1 pbox * ShadowPitch pCir) + x1 pbox * Bpp) (ShadowPitch pCir) 1"
    by (elim exE conjE)
  have "in_fb FBPitch (nat Bpp) (virtualX pScrn) (virtualY pScrn) a"
    if "(a, v) \<in> set (writes t)" for a v
  proof -
    from that obtain i k where ik: "i < ?h" "k < ?w"
      and a: "a = y1 pbox * FBPitch + x1 pbox * Bpp + int i * FBPitch + int k"
      unfolding wt copy_region_mem by auto
    have k: "int k < (x2 pbox - x1 pbox) * Bpp" using ik(2) by linarith
    have le: "x2 pbox * Bpp \<le> virtualX pScrn * Bpp"
      using x(3) Bpp(2) by (simp add: mult_right_mono)
    have k': "x1 pbox * Bpp + int k < x2 pbox * Bpp"
      using k by (simp add: algebra_simps)
    have x0: "0 \<le> x1 pbox * Bpp" using x(1) Bpp(2) by simp
    have nB: "int (nat Bpp) = Bpp" using Bpp(2) by simp
    have u: "0 \<le> x1 pbox * Bpp + int k" "x1 pbox * Bpp + int k < virtualX pScrn * int (nat Bpp)"
      unfolding nB using le k' x0 by linarith+
    have r: "0 \<le> y1 pbox + int i" "y1 pbox + int i < virtualY pScrn"
      using ik(1) y by linarith+
    have P': "virtualX pScrn * int (nat Bpp) \<le> FBPitch" using P Bpp(2) by simp
    have "a = (y1 pbox + int i) * FBPitch + (x1 pbox * Bpp + int k)"
      unfolding a by (simp add: algebra_simps)
    then show ?thesis
      using in_fb_row [OF r u P'] by simp
  qed
  then show ?thesis
    by (rule stores_in_fbI [OF t])
qed

subsection \<open>Rotate270 and the reflected Rotate90\<close>

lemma store_all_outside:
  assumes "\<And>a v. (a, v) \<in> set ws \<Longrightarrow> in_fb P Bpp V H a" and "\<not> in_fb P Bpp V H a"
  shows "store_all ws fb a = fb a"
proof (rule store_all_other)
  show "a \<notin> fst ` set ws"
  proof
    assume "a \<in> fst ` set ws"
    then obtain v where "(a, v) \<in> set ws" by force
    with assms show False by blast
  qed
qed

lemma rot270_reflects_rot90:
  assumes Bpp: "0 < Bpp" and V: "0 < V" and P: "V * int Bpp \<le> P"
    and X: "0 \<le> X1" "X2 \<le> H" and Y: "0 \<le> Y1" "Y2 \<le> V"
  shows "store_all (rot270_copy m Bpp P SP H X1 X2 Y1 Y2) (reflect P Bpp V H fb) =
     reflect P Bpp V H (store_all (rot90_copy m Bpp P SP V X1 X2 Y1 Y2) fb)"
proof
  fix a
  let ?w270 = "rot270_copy m Bpp P SP H X1 X2 Y1 Y2" and ?w90 = "rot90_copy m Bpp P SP V X1 X2 Y1 Y2"
  have P0: "0 < P"
  proof -
    have "1 * 1 \<le> V * int Bpp" using V Bpp by (intro mult_mono) simp_all
    then show ?thesis using P by linarith
  qed
  show "store_all ?w270 (reflect P Bpp V H fb) a = reflect P Bpp V H (store_all ?w90 fb) a"
  proof (cases "in_fb P Bpp V H a")
    case True
    from in_fb_decompose [OF Bpp P0 True]
    obtain r c b where r: "0 \<le> r" "r < H" and c: "0 \<le> c" "c < V" and b: "b < Bpp"
      and a: "a = pixel_addr P Bpp r c b" by blast
    have c': "0 \<le> V - 1 - c" "V - 1 - c < V" using c by linarith+
    have r': "0 \<le> H - 1 - r" "H - 1 - r < H" using r by linarith+
    have ra: "reflect_addr P Bpp V H a = pixel_addr P Bpp (H - 1 - r) (V - 1 - c) b"
      unfolding a by (rule reflect_addr_pixel [OF Bpp P c b])
    have in': "in_fb P Bpp V H (pixel_addr P Bpp r c b)"
      using True a by simp
    have cond: "(X1 \<le> H - 1 - r \<and> H - 1 - r < X2 \<and> V - Y2 \<le> V - 1 - c \<and> V - 1 - c < V - Y1)
        \<longleftrightarrow> (H - X2 \<le> r \<and> r < H - X1 \<and> Y1 \<le> c \<and> c < Y2)"
      by linarith
    have "reflect P Bpp V H (store_all ?w90 fb) a =
        store_all ?w90 fb (pixel_addr P Bpp (H - 1 - r) (V - 1 - c) b)"
      using True by (simp add: reflect_def ra)
    also have "\<dots> = (if H - X2 \<le> r \<and> r < H - X1 \<and> Y1 \<le> c \<and> c < Y2
        then m (pixel_addr SP Bpp c (H - 1 - r) b)
        else fb (pixel_addr P Bpp (H - 1 - r) (V - 1 - c) b))"
      unfolding rot90_at [OF Bpp P Y c' b] cond by simp
    also have "\<dots> = store_all ?w270 (reflect P Bpp V H fb) a"
      unfolding a rot270_at [OF Bpp P Y c b]
      using in' ra by (simp add: reflect_def a)
    finally show ?thesis by simp
  next
    case False
    have "store_all ?w270 (reflect P Bpp V H fb) a = reflect P Bpp V H fb a"
      by (rule store_all_outside [OF _ False]) (erule rot270_in_fb [OF Bpp P X Y])
    moreover have "store_all ?w90 fb a = fb a"
      by (rule store_all_outside [OF _ False]) (erule rot90_in_fb [OF Bpp P X Y])
    ultimately show ?thesis
      using False by (simp add: reflect_def)
  qed
qed

subsection \<open>Rounding multiples; the pitch as a shadow pitch\<close>

lemma round_dvd:
  assumes "0 < g" and "g dvd y"
  shows "round_up g y = y" and "round_down g y = y"
proof -
  from assms(2) obtain k where k: "y = g * k" by (elim dvdE)
  have "(g * k + (g - 1)) div g = k"
    using assms(1) by (simp add: div_pos_pos_trivial)
  then have "(g * k + g - 1) div g = k" by (simp add: algebra_simps)
  then show "round_up g y = y" unfolding round_up_def k by simp
  show "round_down g y = y" unfolding round_down_def k using assms(1) by simp
qed

lemma src_unit_dvd_fb_pitch: "src_unit d dvd fb_pitch BitmapBytePad d pScrn"
  by (cases d) simp_all

section \<open>The pointer transform\<close>

text \<open>
  C4.  For every raw coordinate \<open>(x, y)\<close> and every screen width and height the handler is
  called with \<open>newX = height - y - 1\<close>, \<open>newY = x\<close> when \<open>rotate\<close> is 1 (Rotate90), and
  with \<open>newX = y\<close>, \<open>newY = width - x - 1\<close> for every other value of \<open>rotate\<close> (no rotation
  and Rotate270 alike).  With width 800 and height 600 the input \<open>(10, 5)\<close> becomes
  \<open>(594, 10)\<close> in the Rotate90 branch and \<open>(5, 789)\<close> in the other branch.
\<close>

theorem cirPointerMoved_exact:
  "cirPointerMoved pScreen pCir PointerMoved x y =
     (if rotateC pCir = 1 then PointerMoved (pScreen_height pScreen - y - 1) x
      else PointerMoved y (pScreen_width pScreen - x - 1))
   \<and> cirPointerMoved \<lparr>pScreen_width = 800, pScreen_height = 600\<rparr>
         \<lparr>rotateC = 1, ShadowPitch = sp, ShadowPtr = m\<rparr> Pair 10 5 = (594, 10)
   \<and> cirPointerMoved \<lparr>pScreen_width = 800, pScreen_height = 600\<rparr>
         \<lparr>rotateC = 0, ShadowPitch = sp, ShadowPtr = m\<rparr> Pair 10 5 = (5, 789)
   \<and> cirPointerMoved \<lparr>pScreen_width = 800, pScreen_height = 600\<rparr>
         \<lparr>rotateC = - 1, ShadowPitch = sp, ShadowPtr = m\<rparr> Pair 10 5 = (5, 789)"
  by (simp add: cirPointerMoved_def)

text \<open>
  C10.  When \<open>0 \<le> x < width\<close> and \<open>0 \<le> y < height\<close> (as signed 32-bit values), the
  coordinates \<open>(newX, newY)\<close> handed to the downstream handler satisfy \<open>0 \<le> newX < height\<close>
  and \<open>0 \<le> newY < width\<close>, in both branches.  With \<open>Pair\<close> as the handler the result of
  the call is the pair \<open>(newX, newY)\<close>.
\<close>

theorem cirPointerMoved_in_range:
  assumes "0 \<le> sint x" and "sint x < sint (pScreen_width pScreen)"
    and "0 \<le> sint y" and "sint y < sint (pScreen_height pScreen)"
  shows "0 \<le> sint (fst (cirPointerMoved pScreen pCir Pair x y))
     \<and> sint (fst (cirPointerMoved pScreen pCir Pair x y)) < sint (pScreen_height pScreen)
     \<and> 0 \<le> sint (snd (cirPointerMoved pScreen pCir Pair x y))
     \<and> sint (snd (cirPointerMoved pScreen pCir Pair x y)) < sint (pScreen_width pScreen)"
proof -
  let ?w = "pScreen_width pScreen" and ?h = "pScreen_height pScreen"
  have sub: "sint (a - b) = sint a - sint b"
    if "0 \<le> sint b" and "sint b \<le> sint a" for a b :: "32 word"
  proof -
    have "sint (a - b) = signed_take_bit 31 (sint a - sint b)"
      by (simp add: sint_word_ariths)
    also have "\<dots> = sint a - sint b"
      using that sint_lt [of a] by (intro signed_take_bit_int_eq_self) simp_all
    finally show ?thesis .
  qed
  have one: "sint (1 :: 32 word) = 1"
    by simp
  have h: "sint (?h - y - 1) = sint ?h - sint y - 1"
    using assms sub [of y ?h] sub [of 1 "?h - y"] by (simp add: one)
  have w: "sint (?w - x - 1) = sint ?w - sint x - 1"
    using assms sub [of x ?w] sub [of 1 "?w - x"] by (simp add: one)
  show ?thesis
    using assms by (simp add: cirPointerMoved_def h w)
qed

theorem cirPointerMoved_in_range_witness:
  "0 \<le> sint (10 :: 32 word) \<and> sint (10 :: 32 word) < sint (800 :: 32 word)
   \<and> 0 \<le> sint (5 :: 32 word) \<and> sint (5 :: 32 word) < sint (600 :: 32 word)
   \<and> 0 \<le> sint (fst (cirPointerMoved \<lparr>pScreen_width = 800, pScreen_height = 600\<rparr>
                       \<lparr>rotateC = 1, ShadowPitch = 0, ShadowPtr = blank\<rparr> Pair 10 5))
   \<and> sint (fst (cirPointerMoved \<lparr>pScreen_width = 800, pScreen_height = 600\<rparr>
                  \<lparr>rotateC = 1, ShadowPitch = 0, ShadowPtr = blank\<rparr> Pair 10 5))
       < sint (600 :: 32 word)
   \<and> 0 \<le> sint (snd (cirPointerMoved \<lparr>pScreen_width = 800, pScreen_height = 600\<rparr>
                       \<lparr>rotateC = - 1, ShadowPitch = 0, ShadowPtr = blank\<rparr> Pair 10 5))
   \<and> sint (snd (cirPointerMoved \<lparr>pScreen_width = 800, pScreen_height = 600\<rparr>
                  \<lparr>rotateC = - 1, ShadowPitch = 0, ShadowPtr = blank\<rparr> Pair 10 5))
       < sint (800 :: 32 word)"
proof -
  have h: "0 \<le> sint (10 :: 32 word)"
    "sint (10 :: 32 word) < sint (pScreen_width \<lparr>pScreen_width = 800, pScreen_height = 600\<rparr>)"
    "0 \<le> sint (5 :: 32 word)"
    "sint (5 :: 32 word) < sint (pScreen_height \<lparr>pScreen_width = 800, pScreen_height = 600\<rparr>)"
    by simp_all
  from cirPointerMoved_in_range [OF h, of "\<lparr>rotateC = 1, ShadowPitch = 0, ShadowPtr = blank\<rparr>"]
    cirPointerMoved_in_range [OF h, of "\<lparr>rotateC = - 1, ShadowPitch = 0, ShadowPtr = blank\<rparr>"]
  show ?thesis
    by simp
qed

section \<open>Order of the boxes and repeated boxes\<close>



section \<open>Packed stores and the per-pixel reference copy\<close>


section \<open>Empty box lists and boxes of zero width\<close>

text \<open>
  C9.  For every rotation mode and depth, a refresh call with an empty box list performs no
  access at all and leaves every byte of the frame buffer unchanged.  The same holds for
  boxes of zero width (\<open>x1 = x2\<close>): in the rotating routines whatever their rows are, since
  the loop over the width does not run; in \<^verbatim>\<open>cirRefreshArea\<close> for boxes with
  \<open>y1 \<le> y2\<close> (the invariant of a dirty box), where each of the \<open>y2 - y1\<close> scanline copies
  has length 0.
\<close>

theorem empty_refresh_writes_nothing:
  "rot_refresh BitmapBytePad d pScrn pCir [] = Some []
   \<and> cirRefreshArea BitmapBytePad pScrn pCir [] = Some []
   \<and> after (Some []) fb = Some fb
   \<and> ((\<forall>b \<in> set bs. x1 b = x2 b) \<longrightarrow>
        rot_refresh BitmapBytePad d pScrn pCir bs = Some []
        \<and> after (rot_refresh BitmapBytePad d pScrn pCir bs) fb = Some fb)
   \<and> ((\<forall>b \<in> set bs. x1 b = x2 b \<and> y1 b \<le> y2 b) \<longrightarrow>
        cirRefreshArea BitmapBytePad pScrn pCir bs = Some []
        \<and> after (cirRefreshArea BitmapBytePad pScrn pCir bs) fb = Some fb)"
proof -
  have a: "after (Some []) fb = Some fb"
    by (simp add: after_def)
  have r: "rot_refresh BitmapBytePad d pScrn pCir bs = Some []" if "\<forall>b \<in> set bs. x1 b = x2 b"
    unfolding rot_refresh_loop using that by (intro box_loop_nil_all rot_box_zero_width) simp
  have c: "cirRefreshArea BitmapBytePad pScrn pCir bs = Some []"
    if "\<forall>b \<in> set bs. x1 b = x2 b \<and> y1 b \<le> y2 b"
    unfolding cirRefreshArea_def using that
    by (intro box_loop_nil_all cirRefreshArea_box_zero_width) simp_all
  show ?thesis
    using a r c by (simp add: rot_refresh_loop cirRefreshArea_def)
qed

theorem empty_refresh_writes_nothing_witness:
  "x1 \<lparr>x1 = 3, y1 = 1, x2 = 3, y2 = 6\<rparr> = x2 \<lparr>x1 = 3, y1 = 1, x2 = 3, y2 = 6\<rparr>
   \<and> y1 \<lparr>x1 = 3, y1 = 1, x2 = 3, y2 = 6\<rparr> \<le> y2 \<lparr>x1 = 3, y1 = 1, x2 = 3, y2 = 6\<rparr>
   \<and> rot_refresh (\<lambda>w. 4 * ((w + 31) div 32)) D8
        \<lparr>bitsPerPixel = 8, displayWidth = 8, virtualX = 8, virtualY = 4\<rparr>
        \<lparr>rotateC = 1, ShadowPitch = 4, ShadowPtr = (\<lambda>a. word_of_int a)\<rparr>
        [\<lparr>x1 = 3, y1 = 1, x2 = 3, y2 = 6\<rparr>] = Some []
   \<and> cirRefreshArea (\<lambda>w. 4 * ((w + 31) div 32))
        \<lparr>bitsPerPixel = 8, displayWidth = 8, virtualX = 8, virtualY = 4\<rparr>
        \<lparr>rotateC = 0, ShadowPitch = 8, ShadowPtr = (\<lambda>a. word_of_int a)\<rparr>
        [\<lparr>x1 = 3, y1 = 1, x2 = 3, y2 = 6\<rparr>] = Some []"
  using empty_refresh_writes_nothing
    [of "\<lambda>w. 4 * ((w + 31) div 32)" D8
        "\<lparr>bitsPerPixel = 8, displayWidth = 8, virtualX = 8, virtualY = 4\<rparr>"
        "\<lparr>rotateC = 1, ShadowPitch = 4, ShadowPtr = (\<lambda>a. word_of_int a)\<rparr>"
        "\<lambda>_. 0" "[\<lparr>x1 = 3, y1 = 1, x2 = 3, y2 = 6\<rparr>]"]
    empty_refresh_writes_nothing
    [of "\<lambda>w. 4 * ((w + 31) div 32)" D8
        "\<lparr>bitsPerPixel = 8, displayWidth = 8, virtualX = 8, virtualY = 4\<rparr>"
        "\<lparr>rotateC = 0, ShadowPitch = 8, ShadowPtr = (\<lambda>a. word_of_int a)\<rparr>"
        "\<lambda>_. 0" "[\<lparr>x1 = 3, y1 = 1, x2 = 3, y2 = 6\<rparr>]"]
  by simp

section \<open>The copy without rotation\<close>

text \<open>
  C3 (as amended).  Without rotation, for a box inside the screen
  (\<open>0 \<le> x1 \<le> x2 \<le> virtualX\<close>, \<open>0 \<le> y1 \<le> y2 \<le> virtualY\<close>) of a screen whose frame
  buffer pitch covers the visible width and whose frame buffer and shadow buffer are both
  smaller than \<open>2^31\<close> bytes (\<open>virtualY * FBPitch < 2^31\<close> and
  \<open>virtualY * ShadowPitch < 2^31\<close>, the shadow pitch not negative),
  \<^verbatim>\<open>cirRefreshArea\<close> stores, for the scanlines \<open>y1, y1 + 1, \<dots>, y2 - 1\<close> in this order,
  the \<open>(x2 - x1) * Bpp\<close> bytes of the scanline in ascending order, each byte being the
  shadow byte at the same row and byte column.  Afterwards every frame buffer byte of the
  box equals the shadow byte of the same row and byte column.  Here
  \<open>Bpp = bitsPerPixel >> 3\<close> and \<open>FBPitch = BitmapBytePad (displayWidth * bitsPerPixel)\<close>,
  as in the routine.
\<close>

theorem plain_copy_identity:
  fixes pScrn :: ScrnInfoRec and pCir :: CirRec and b :: BoxRec
  assumes Bpp: "Bpp = drop_bit 3 (bitsPerPixel pScrn)" "0 < Bpp"
    and FBPitch: "FBPitch = BitmapBytePad (i32 (displayWidth pScrn * bitsPerPixel pScrn))"
    and x: "0 \<le> x1 b" "x1 b \<le> x2 b" "x2 b \<le> virtualX pScrn"
    and y: "0 \<le> y1 b" "y1 b \<le> y2 b" "y2 b \<le> virtualY pScrn"
    and pos: "0 < virtualY pScrn"
    and P: "virtualX pScrn * Bpp \<le> FBPitch"
    and sz: "virtualY pScrn * FBPitch < 2 ^ 31"
    and sp: "0 \<le> ShadowPitch pCir" "virtualY pScrn * ShadowPitch pCir < 2 ^ 31"
  shows "\<exists>t. cirRefreshArea BitmapBytePad pScrn pCir [b] = Some t
     \<and> writes t =
         concat (map (\<lambda>k. map (\<lambda>j. ((y1 b + int k) * FBPitch + x1 b * Bpp + int j,
                                      ShadowPtr pCir
                                        ((y1 b + int k) * ShadowPitch pCir + x1 b * Bpp + int j)))
                               [0..<nat ((x2 b - x1 b) * Bpp)])
                     [0..<nat (y2 b - y1 b)])
     \<and> (\<forall>y cb. y1 b \<le> y \<and> y < y2 b \<and> x1 b * Bpp \<le> cb \<and> cb < x2 b * Bpp \<longrightarrow>
            run t fb (y * FBPitch + cb) = ShadowPtr pCir (y * ShadowPitch pCir + cb))"
proof -
  let ?m = "ShadowPtr pCir" and ?SP = "ShadowPitch pCir"
  let ?h = "nat (y2 b - y1 b)" and ?w = "nat ((x2 b - x1 b) * Bpp)"
  let ?ws = "copy_region ?m 1 ?h ?w (y1 b * FBPitch + x1 b * Bpp) FBPitch
               (y1 b * ?SP + x1 b * Bpp) ?SP 1"
  have xF: "x2 b * Bpp \<le> FBPitch"
  proof -
    have "x2 b * Bpp \<le> virtualX pScrn * Bpp"
      using x(3) Bpp(2) by (intro mult_right_mono) simp_all
    then show ?thesis using P by linarith
  qed
  from map_option_SomeD [OF plain_box_writes_exact [where BitmapBytePad = BitmapBytePad,
      OF Bpp FBPitch x y pos P sz sp]]
  obtain t where t: "cirRefreshArea_box BitmapBytePad pScrn pCir b = Some t"
    and wt: "writes t = ?ws"
    by (elim exE conjE)
  have list: "?ws = concat (map (\<lambda>k. map (\<lambda>j. ((y1 b + int k) * FBPitch + x1 b * Bpp + int j,
                  ?m ((y1 b + int k) * ?SP + x1 b * Bpp + int j))) [0..<?w]) [0..<?h])"
    unfolding copy_region_def copy_column_def copy_pixel_def
    by (simp add: upt_1 algebra_simps)
  have at: "store_all ?ws fb (y * FBPitch + cb) = ?m (y * ?SP + cb)"
    if y: "y1 b \<le> y" "y < y2 b" and cb: "x1 b * Bpp \<le> cb" "cb < x2 b * Bpp" for y cb
  proof (rule store_all_in)
    let ?i = "nat (y - y1 b)" and ?k = "nat (cb - x1 b * Bpp)"
    have "?i < ?h" using y by linarith
    moreover have "?k < ?w" using cb by (simp add: algebra_simps)
    moreover have "(y * FBPitch + cb, ?m (y * ?SP + cb)) =
        (y1 b * FBPitch + x1 b * Bpp + int ?i * FBPitch + int ?k * int 1 + int 0,
         ?m (y1 b * ?SP + x1 b * Bpp + int ?i * ?SP + int ?k * 1 + int 0))"
      using y cb by (simp add: algebra_simps)
    ultimately show "(y * FBPitch + cb, ?m (y * ?SP + cb)) \<in> set ?ws"
      unfolding copy_region_mem by blast
  next
    fix v'
    assume "(y * FBPitch + cb, v') \<in> set ?ws"
    then obtain i k where ik: "i < ?h" "k < ?w"
      and a: "y * FBPitch + cb = y1 b * FBPitch + x1 b * Bpp + int i * FBPitch + int k"
      and v': "v' = ?m (y1 b * ?SP + x1 b * Bpp + int i * ?SP + int k)"
      unfolding copy_region_mem by auto
    have "int k < (x2 b - x1 b) * Bpp" using ik(2) by linarith
    then have u: "0 \<le> x1 b * Bpp + int k" "x1 b * Bpp + int k < FBPitch"
      using Bpp(2) x(1) xF by (simp_all add: algebra_simps)
    have u': "0 \<le> cb" "cb < FBPitch"
      using cb Bpp(2) x(1) xF by (simp_all add: order_trans [OF _ cb(1)])
    have "(y1 b + int i) * FBPitch + (x1 b * Bpp + int k) = y * FBPitch + cb"
      using a by (simp add: algebra_simps)
    from div_mod_unique [OF u u' this]
    have eq: "y = y1 b + int i" "cb = x1 b * Bpp + int k" by simp_all
    show "v' = ?m (y * ?SP + cb)"
      unfolding v' eq by (simp add: algebra_simps)
  qed
  have "cirRefreshArea BitmapBytePad pScrn pCir [b] = Some t"
    by (simp add: cirRefreshArea_def t)
  moreover have "writes t = concat (map (\<lambda>k. map (\<lambda>j. ((y1 b + int k) * FBPitch + x1 b * Bpp + int j,
                  ?m ((y1 b + int k) * ?SP + x1 b * Bpp + int j))) [0..<?w]) [0..<?h])"
    unfolding wt by (rule list)
  moreover have "\<forall>y cb. y1 b \<le> y \<and> y < y2 b \<and> x1 b * Bpp \<le> cb \<and> cb < x2 b * Bpp \<longrightarrow>
            run t fb (y * FBPitch + cb) = ?m (y * ?SP + cb)"
    unfolding run_store_all wt using at by blast
  ultimately show ?thesis by blast
qed

theorem plain_copy_identity_witness:
  "(2 :: int) = drop_bit 3 (bitsPerPixel \<lparr>bitsPerPixel = 16, displayWidth = 4, virtualX = 4, virtualY = 2\<rparr>)
   \<and> (0 :: int) < 2
   \<and> (8 :: int) = (\<lambda>w. 4 * ((w + 31) div 32)) (i32 (4 * 16))
   \<and> (0 :: int) \<le> 1 \<and> (1 :: int) \<le> 3 \<and> (3 :: int) \<le> 4
   \<and> (0 :: int) \<le> 0 \<and> (0 :: int) \<le> 2 \<and> (2 :: int) \<le> 2 \<and> (0 :: int) < 2
   \<and> (4 :: int) * 2 \<le> 8 \<and> (2 :: int) * 8 < 2 ^ 31 \<and> (0 :: int) \<le> 8
   \<and> (\<exists>t. cirRefreshArea (\<lambda>w. 4 * ((w + 31) div 32))
              \<lparr>bitsPerPixel = 16, displayWidth = 4, virtualX = 4, virtualY = 2\<rparr>
              \<lparr>rotateC = 0, ShadowPitch = 8, ShadowPtr = (\<lambda>a. word_of_int a)\<rparr>
              [\<lparr>x1 = 1, y1 = 0, x2 = 3, y2 = 2\<rparr>] = Some t
          \<and> length (writes t) = 8
          \<and> (\<forall>y cb. 0 \<le> y \<and> y < 2 \<and> 2 \<le> cb \<and> cb < 6 \<longrightarrow>
                 run t (\<lambda>_. 0) (y * 8 + cb) = word_of_int (y * 8 + cb)))"
proof -
  let ?scrn = "\<lparr>bitsPerPixel = 16, displayWidth = 4, virtualX = 4, virtualY = 2\<rparr>"
  let ?cir = "\<lparr>rotateC = 0, ShadowPitch = 8, ShadowPtr = (\<lambda>a. word_of_int a :: 8 word)\<rparr>"
  let ?b = "\<lparr>x1 = 1, y1 = 0, x2 = 3, y2 = 2\<rparr>"
  let ?pad = "\<lambda>w :: int. 4 * ((w + 31) div 32)"
  have i: "i32 64 = 64" by (simp add: i32_def)
  have h: "(2 :: int) = drop_bit 3 (bitsPerPixel ?scrn)" "(0 :: int) < 2"
    "(8 :: int) = ?pad (i32 (displayWidth ?scrn * bitsPerPixel ?scrn))"
    "0 \<le> x1 ?b" "x1 ?b \<le> x2 ?b" "x2 ?b \<le> virtualX ?scrn"
    "0 \<le> y1 ?b" "y1 ?b \<le> y2 ?b" "y2 ?b \<le> virtualY ?scrn" "0 < virtualY ?scrn"
    "virtualX ?scrn * 2 \<le> 8" "virtualY ?scrn * 8 < 2 ^ 31"
    "0 \<le> ShadowPitch ?cir" "virtualY ?scrn * ShadowPitch ?cir < 2 ^ 31"
    by (simp_all add: drop_bit_eq_div i)
  from plain_copy_identity [where Bpp = 2 and pScrn = ?scrn and FBPitch = 8
      and BitmapBytePad = ?pad and b = ?b and pCir = ?cir and fb = "\<lambda>_. 0", OF h]
  obtain t where t: "cirRefreshArea ?pad ?scrn ?cir [?b] = Some t"
    and w: "writes t =
         concat (map (\<lambda>k. map (\<lambda>j. ((y1 ?b + int k) * 8 + x1 ?b * 2 + int j,
                                      ShadowPtr ?cir
                                        ((y1 ?b + int k) * ShadowPitch ?cir + x1 ?b * 2 + int j)))
                               [0..<nat ((x2 ?b - x1 ?b) * 2)])
                     [0..<nat (y2 ?b - y1 ?b)])"
    and r: "\<forall>y cb. y1 ?b \<le> y \<and> y < y2 ?b \<and> x1 ?b * 2 \<le> cb \<and> cb < x2 ?b * 2 \<longrightarrow>
            run t (\<lambda>_. 0) (y * 8 + cb) = ShadowPtr ?cir (y * ShadowPitch ?cir + cb)"
    by (elim exE conjE)
  have "length (writes t) = 8"
    unfolding w by (simp add: length_concat o_def upt_2)
  moreover have "\<forall>y cb. 0 \<le> y \<and> y < 2 \<and> 2 \<le> cb \<and> cb < 6 \<longrightarrow>
                 run t (\<lambda>_. 0) (y * 8 + cb) = word_of_int (y * 8 + cb)"
    using r by simp
  ultimately have "\<exists>t. cirRefreshArea ?pad ?scrn ?cir [?b] = Some t
          \<and> length (writes t) = 8
          \<and> (\<forall>y cb. 0 \<le> y \<and> y < 2 \<and> 2 \<le> cb \<and> cb < 6 \<longrightarrow>
                 run t (\<lambda>_. 0) (y * 8 + cb) = word_of_int (y * 8 + cb))"
    using t by blast
  then show ?thesis
    by (simp add: drop_bit_eq_div i)
qed

text \<open>
  C3 as stated, for every box inside the screen, fails when the frame buffer reaches
  \<open>2^31\<close> bytes.  At 32 bpp with a screen 32767 pixels wide and 16386 rows high the pitch
  is 131068 bytes, and for the box of the one pixel in column 0 of row 16385 the product
  \<^verbatim>\<open>pbox->y1 * FBPitch\<close> is 2147549180, more than an \<^verbatim>\<open>int\<close> holds.  The routine
  stores the four bytes 2147418116 bytes in front of the frame buffer, and the byte of the
  box at offset 2147549180 keeps its old value 0, where the shadow byte is 252.
\<close>

theorem plain_copy_counterexample:
  "0 \<le> x1 \<lparr>x1 = 0, y1 = 16385, x2 = 1, y2 = 16386\<rparr>
   \<and> x2 \<lparr>x1 = 0, y1 = 16385, x2 = 1, y2 = 16386\<rparr>
       \<le> virtualX \<lparr>bitsPerPixel = 32, displayWidth = 32767, virtualX = 32767, virtualY = 16386\<rparr>
   \<and> 0 \<le> y1 \<lparr>x1 = 0, y1 = 16385, x2 = 1, y2 = 16386\<rparr>
   \<and> y2 \<lparr>x1 = 0, y1 = 16385, x2 = 1, y2 = 16386\<rparr>
       \<le> virtualY \<lparr>bitsPerPixel = 32, displayWidth = 32767, virtualX = 32767, virtualY = 16386\<rparr>
   \<and> pad32 (i32 (32767 * 32)) = 131068 \<and> (16385 :: int) * 131068 = 2147549180
   \<and> map_option writes
         (cirRefreshArea pad32
            \<lparr>bitsPerPixel = 32, displayWidth = 32767, virtualX = 32767, virtualY = 16386\<rparr>
            \<lparr>rotateC = 0, ShadowPitch = 131068, ShadowPtr = word_of_int\<rparr>
            [\<lparr>x1 = 0, y1 = 16385, x2 = 1, y2 = 16386\<rparr>])
       = Some [(- 2147418116, 252), (- 2147418115, 253), (- 2147418114, 254),
               (- 2147418113, 255)]
   \<and> byte_at
         (after (cirRefreshArea pad32
            \<lparr>bitsPerPixel = 32, displayWidth = 32767, virtualX = 32767, virtualY = 16386\<rparr>
            \<lparr>rotateC = 0, ShadowPitch = 131068, ShadowPtr = word_of_int\<rparr>
            [\<lparr>x1 = 0, y1 = 16385, x2 = 1, y2 = 16386\<rparr>]) blank) 2147549180 = Some 0
   \<and> (word_of_int 2147549180 :: 8 word) = 252"
  by code_simp

section \<open>The rows read by the rotating routines\<close>

text \<open>
  C5 (as amended).  In either rotation, for a box with \<open>0 \<le> x1 \<le> x2\<close> and
  \<open>0 \<le> y1 \<le> y2\<close>, when the shadow pitch is a multiple of the size of the source
  pointer's type (1 byte at 8 and 24 bpp, 2 at 16 bpp, 4 at 32 bpp), is not negative and
  is below \<open>2^31\<close>, and the two offsets \<open>x2 * Bpp\<close> and \<open>round_up g y2 * ShadowPitch\<close> of
  the far corner of the expanded box are below \<open>2^31\<close>, the rotating routine for a depth
  reads exactly the pixels of the columns \<open>x1 \<le> x < x2\<close> in the scanlines
  \<open>round_down g y1 \<le> y < round_up g y2\<close>, where \<open>g\<close> is the packing group size: 4 for 8
  and 24 bpp, 2 for 16 bpp and 1 (no expansion) for 32 bpp.  Both bounds are multiples of
  \<open>g\<close>; the first lies at most \<open>g - 1\<close> scanlines above \<open>y1\<close> and the second at most
  \<open>g - 1\<close> scanlines below \<open>y2\<close>.  So the routine reads at most \<open>g - 1\<close> scanlines beyond
  the box at each of its two edges, which can be \<open>2 * (g - 1)\<close> scanlines in all.
\<close>

theorem rows_read_expanded:
  assumes "rotateC pCir = 1 \<or> rotateC pCir = - 1"
    and "0 \<le> x1 pbox" and "x1 pbox \<le> x2 pbox" and "x2 pbox * int (bytes_pp d) < 2 ^ 31"
    and "0 \<le> y1 pbox" and "y1 pbox \<le> y2 pbox"
    and "src_unit d dvd ShadowPitch pCir"
    and "0 \<le> ShadowPitch pCir" and "ShadowPitch pCir < 2 ^ 31"
    and "round_up (group_size d) (y2 pbox) * ShadowPitch pCir < 2 ^ 31"
  shows "(\<exists>t. rot_box BitmapBytePad d pScrn pCir pbox = Some t
          \<and> set (reads t) =
              {pixel_addr (ShadowPitch pCir) (bytes_pp d) y x b | x y b.
                 x1 pbox \<le> x \<and> x < x2 pbox
                 \<and> round_down (group_size d) (y1 pbox) \<le> y \<and> y < round_up (group_size d) (y2 pbox)
                 \<and> b < bytes_pp d})
     \<and> group_size d dvd round_down (group_size d) (y1 pbox)
     \<and> group_size d dvd round_up (group_size d) (y2 pbox)
     \<and> y1 pbox - (group_size d - 1) \<le> round_down (group_size d) (y1 pbox)
     \<and> round_down (group_size d) (y1 pbox) \<le> y1 pbox
     \<and> y2 pbox \<le> round_up (group_size d) (y2 pbox)
     \<and> round_up (group_size d) (y2 pbox) \<le> y2 pbox + (group_size d - 1)
     \<and> group_size D8 = 4 \<and> group_size D16 = 2 \<and> group_size D24 = 4 \<and> group_size D32 = 1
     \<and> round_down (group_size D32) (y1 pbox) = y1 pbox
     \<and> round_up (group_size D32) (y2 pbox) = y2 pbox"
  using rot_box_reads_set [OF assms, of BitmapBytePad pScrn]
    round_down_le [OF group_pos, of d "y1 pbox"] round_down_gt [OF group_pos, of "y1 pbox" d]
    round_up_ge [OF group_pos, of "y2 pbox" d] round_up_lt [OF group_pos, of d "y2 pbox"]
  by (simp add: round_down_def [of "group_size d"] round_up_def [of "group_size d"])

theorem rows_read_expanded_witness:
  "(rotateC \<lparr>rotateC = 1, ShadowPitch = 4, ShadowPtr = word_of_int\<rparr> = 1
      \<or> rotateC \<lparr>rotateC = 1, ShadowPitch = 4, ShadowPtr = word_of_int\<rparr> = - 1)
   \<and> 0 \<le> x1 \<lparr>x1 = 0, y1 = 3, x2 = 1, y2 = 5\<rparr>
   \<and> x1 \<lparr>x1 = 0, y1 = 3, x2 = 1, y2 = 5\<rparr> \<le> x2 \<lparr>x1 = 0, y1 = 3, x2 = 1, y2 = 5\<rparr>
   \<and> x2 \<lparr>x1 = 0, y1 = 3, x2 = 1, y2 = 5\<rparr> * int (bytes_pp D8) < 2 ^ 31
   \<and> 0 \<le> y1 \<lparr>x1 = 0, y1 = 3, x2 = 1, y2 = 5\<rparr>
   \<and> y1 \<lparr>x1 = 0, y1 = 3, x2 = 1, y2 = 5\<rparr> \<le> y2 \<lparr>x1 = 0, y1 = 3, x2 = 1, y2 = 5\<rparr>
   \<and> src_unit D8 dvd ShadowPitch \<lparr>rotateC = 1, ShadowPitch = 4, ShadowPtr = word_of_int\<rparr>
   \<and> (0 :: int) \<le> 4 \<and> (4 :: int) < 2 ^ 31
   \<and> round_up (group_size D8) (y2 \<lparr>x1 = 0, y1 = 3, x2 = 1, y2 = 5\<rparr>) * 4 < 2 ^ 31
   \<and> (\<exists>t. rot_box pad32 D8 \<lparr>bitsPerPixel = 8, displayWidth = 8, virtualX = 8, virtualY = 1\<rparr>
              \<lparr>rotateC = 1, ShadowPitch = 4, ShadowPtr = word_of_int\<rparr>
              \<lparr>x1 = 0, y1 = 3, x2 = 1, y2 = 5\<rparr> = Some t
          \<and> set (reads t) =
              {pixel_addr 4 1 y x b | x y b. 0 \<le> x \<and> x < 1 \<and> 0 \<le> y \<and> y < 8 \<and> b < 1})"
proof -
  let ?cir = "\<lparr>rotateC = 1, ShadowPitch = 4, ShadowPtr = word_of_int\<rparr>"
  let ?b = "\<lparr>x1 = 0, y1 = 3, x2 = 1, y2 = 5\<rparr>"
  have r: "round_down 4 3 = 0" "round_up 4 5 = 8"
    by (simp_all add: round_down_def round_up_def)
  have h: "rotateC ?cir = 1 \<or> rotateC ?cir = - 1" "0 \<le> x1 ?b" "x1 ?b \<le> x2 ?b"
    "x2 ?b * int (bytes_pp D8) < 2 ^ 31" "0 \<le> y1 ?b" "y1 ?b \<le> y2 ?b"
    "src_unit D8 dvd ShadowPitch ?cir" "0 \<le> ShadowPitch ?cir" "ShadowPitch ?cir < 2 ^ 31"
    "round_up (group_size D8) (y2 ?b) * ShadowPitch ?cir < 2 ^ 31"
    by (simp_all add: r)
  from rows_read_expanded [OF h, of pad32
      "\<lparr>bitsPerPixel = 8, displayWidth = 8, virtualX = 8, virtualY = 1\<rparr>"]
  show ?thesis
    by (simp add: r)
qed

text \<open>
  C5 as stated, with \<open>g - 1\<close> bounding the number of scanlines read beyond the box, fails:
  at 8 bpp the box of the rows \<open>3 \<le> y < 5\<close> makes the routine read the six scanlines
  7, 6, 5, 2, 1 and 0 outside the box, and \<open>g - 1\<close> is 3.  With a shadow pitch that is not
  a multiple of the source pointer's unit even the expanded range is left: at 16 bpp with
  a pitch of 5 bytes the box of the rows \<open>0 \<le> y < 10\<close> needs no expansion, and the
  routine reads the scanlines 10 and 11.  And when the offset of the last row leaves the
  range of \<^verbatim>\<open>int\<close> the rows read are nowhere near the box: at 8 bpp with a pitch of
  1048576 bytes the box of the rows \<open>4092 \<le> y < 4096\<close> needs no expansion, the product
  \<^verbatim>\<open>(1 - y2) * srcPitch\<close> is 4293918720, and the routine reads the four scanlines in
  front of the shadow buffer.
\<close>

theorem rows_read_counterexample:
  "rows_beyond 4 3 5
     (rot_box pad32 D8 \<lparr>bitsPerPixel = 8, displayWidth = 8, virtualX = 8, virtualY = 1\<rparr>
        \<lparr>rotateC = 1, ShadowPitch = 4, ShadowPtr = word_of_int\<rparr>
        \<lparr>x1 = 0, y1 = 3, x2 = 1, y2 = 5\<rparr>) = Some [7, 6, 5, 2, 1, 0]
   \<and> int (length [7, 6, 5, 2, 1, 0 :: int]) = 6 \<and> group_size D8 - 1 = 3
   \<and> rows_beyond 5 0 10
     (rot_box pad32 D16 \<lparr>bitsPerPixel = 16, displayWidth = 10, virtualX = 10, virtualY = 1\<rparr>
        \<lparr>rotateC = 1, ShadowPitch = 5, ShadowPtr = word_of_int\<rparr>
        \<lparr>x1 = 0, y1 = 0, x2 = 1, y2 = 10\<rparr>) = Some [10, 11]
   \<and> round_down (group_size D16) 0 = 0 \<and> round_up (group_size D16) 10 = 10
   \<and> rows_beyond 1048576 4092 4096
     (rot_box pad32 D8 \<lparr>bitsPerPixel = 8, displayWidth = 4096, virtualX = 4096, virtualY = 1\<rparr>
        \<lparr>rotateC = 1, ShadowPitch = 1048576, ShadowPtr = word_of_int\<rparr>
        \<lparr>x1 = 0, y1 = 4092, x2 = 1, y2 = 4096\<rparr>) = Some [- 1, - 2, - 3, - 4]
   \<and> round_down (group_size D8) 4092 = 4092 \<and> round_up (group_size D8) 4096 = 4096
   \<and> (1 - 4096) * - (1048576 :: int) = 4293918720"
  by code_simp

section \<open>Stores stay inside the frame buffer\<close>

text \<open>
  C2 (as amended).  In either rotation and for every depth, every store of the rotating
  routine lies inside the visible part of the frame buffer when every box of the list
  satisfies \<open>0 \<le> x1 \<le> x2 \<le> virtualY\<close> and \<open>0 \<le> y1 \<le> y2\<close>, the row range expanded
  to the packing group still ends inside the shadow buffer (\<open>round_up g y2 \<le> virtualX\<close>,
  the shadow buffer being \<open>virtualY\<close> pixels wide and \<open>virtualX\<close> rows high), the screen
  is not empty, the frame buffer pitch covers the \<open>virtualX\<close> visible pixels of a row, and
  the frame buffer is smaller than \<open>2^31\<close> bytes (\<open>virtualY * pitch < 2^31\<close>).  Nothing is
  asked of the shadow pitch.  Without rotation the same holds for \<^verbatim>\<open>cirRefreshArea\<close>
  and every list of boxes inside the screen, the frame buffer again smaller than \<open>2^31\<close>
  bytes.
\<close>

theorem stores_within_frame_buffer:
  "((rotateC pCir = 1 \<or> rotateC pCir = - 1)
      \<and> (\<forall>b \<in> set bs. 0 \<le> x1 b \<and> x1 b \<le> x2 b \<and> x2 b \<le> virtualY pScrn
             \<and> 0 \<le> y1 b \<and> y1 b \<le> y2 b \<and> round_up (group_size d) (y2 b) \<le> virtualX pScrn)
      \<and> 0 < virtualX pScrn \<and> 0 < virtualY pScrn
      \<and> virtualX pScrn * int (bytes_pp d) \<le> fb_pitch BitmapBytePad d pScrn
      \<and> virtualY pScrn * fb_pitch BitmapBytePad d pScrn < 2 ^ 31
     \<longrightarrow> stores_in_fb (fb_pitch BitmapBytePad d pScrn) (bytes_pp d) (virtualX pScrn)
           (virtualY pScrn) (rot_refresh BitmapBytePad d pScrn pCir bs) = Some True)
   \<and> (Bpp = drop_bit 3 (bitsPerPixel pScrn) \<and> 0 < Bpp
      \<and> FBPitch = BitmapBytePad (i32 (displayWidth pScrn * bitsPerPixel pScrn))
      \<and> (\<forall>b \<in> set bs. 0 \<le> x1 b \<and> x1 b \<le> x2 b \<and> x2 b \<le> virtualX pScrn
             \<and> 0 \<le> y1 b \<and> y1 b \<le> y2 b \<and> y2 b \<le> virtualY pScrn)
      \<and> 0 < virtualY pScrn \<and> virtualX pScrn * Bpp \<le> FBPitch
      \<and> virtualY pScrn * FBPitch < 2 ^ 31
     \<longrightarrow> stores_in_fb FBPitch (nat Bpp) (virtualX pScrn) (virtualY pScrn)
           (cirRefreshArea BitmapBytePad pScrn pCir bs) = Some True)"
proof (intro conjI impI)
  assume h: "(rotateC pCir = 1 \<or> rotateC pCir = - 1)
      \<and> (\<forall>b \<in> set bs. 0 \<le> x1 b \<and> x1 b \<le> x2 b \<and> x2 b \<le> virtualY pScrn
             \<and> 0 \<le> y1 b \<and> y1 b \<le> y2 b \<and> round_up (group_size d) (y2 b) \<le> virtualX pScrn)
      \<and> 0 < virtualX pScrn \<and> 0 < virtualY pScrn
      \<and> virtualX pScrn * int (bytes_pp d) \<le> fb_pitch BitmapBytePad d pScrn
      \<and> virtualY pScrn * fb_pitch BitmapBytePad d pScrn < 2 ^ 31"
  show "stores_in_fb (fb_pitch BitmapBytePad d pScrn) (bytes_pp d) (virtualX pScrn)
           (virtualY pScrn) (rot_refresh BitmapBytePad d pScrn pCir bs) = Some True"
    unfolding rot_refresh_loop
  proof (rule stores_in_fb_loop)
    fix b assume "b \<in> set bs"
    with h show "stores_in_fb (fb_pitch BitmapBytePad d pScrn) (bytes_pp d) (virtualX pScrn)
           (virtualY pScrn) (rot_box BitmapBytePad d pScrn pCir b) = Some True"
      by (intro rot_box_in_fb) simp_all
  qed
next
  assume h: "Bpp = drop_bit 3 (bitsPerPixel pScrn) \<and> 0 < Bpp
      \<and> FBPitch = BitmapBytePad (i32 (displayWidth pScrn * bitsPerPixel pScrn))
      \<and> (\<forall>b \<in> set bs. 0 \<le> x1 b \<and> x1 b \<le> x2 b \<and> x2 b \<le> virtualX pScrn
             \<and> 0 \<le> y1 b \<and> y1 b \<le> y2 b \<and> y2 b \<le> virtualY pScrn)
      \<and> 0 < virtualY pScrn \<and> virtualX pScrn * Bpp \<le> FBPitch
      \<and> virtualY pScrn * FBPitch < 2 ^ 31"
  then have B: "Bpp = drop_bit 3 (bitsPerPixel pScrn)" "0 < Bpp"
    and F: "FBPitch = BitmapBytePad (i32 (displayWidth pScrn * bitsPerPixel pScrn))"
    and pos: "0 < virtualY pScrn"
    and P: "virtualX pScrn * Bpp \<le> FBPitch"
    and sz: "virtualY pScrn * FBPitch < 2 ^ 31"
    and bx: "\<forall>b \<in> set bs. 0 \<le> x1 b \<and> x1 b \<le> x2 b \<and> x2 b \<le> virtualX pScrn
             \<and> 0 \<le> y1 b \<and> y1 b \<le> y2 b \<and> y2 b \<le> virtualY pScrn"
    by blast+
  show "stores_in_fb FBPitch (nat Bpp) (virtualX pScrn) (virtualY pScrn)
           (cirRefreshArea BitmapBytePad pScrn pCir bs) = Some True"
    unfolding cirRefreshArea_def
  proof (rule stores_in_fb_loop)
    fix b assume "b \<in> set bs"
    with bx show "stores_in_fb FBPitch (nat Bpp) (virtualX pScrn) (virtualY pScrn)
           (cirRefreshArea_box BitmapBytePad pScrn pCir b) = Some True"
      by (intro cirRefreshArea_box_in_fb [where BitmapBytePad = BitmapBytePad,
            OF B F _ _ _ _ _ _ pos P sz])
         simp_all
  qed
qed

theorem stores_within_frame_buffer_witness:
  "((rotateC \<lparr>rotateC = 1, ShadowPitch = 4, ShadowPtr = word_of_int\<rparr> = 1
       \<or> rotateC \<lparr>rotateC = 1, ShadowPitch = 4, ShadowPtr = word_of_int\<rparr> = - 1)
    \<and> 0 \<le> x1 \<lparr>x1 = 0, y1 = 3, x2 = 1, y2 = 5\<rparr>
    \<and> x1 \<lparr>x1 = 0, y1 = 3, x2 = 1, y2 = 5\<rparr> \<le> x2 \<lparr>x1 = 0, y1 = 3, x2 = 1, y2 = 5\<rparr>
    \<and> x2 \<lparr>x1 = 0, y1 = 3, x2 = 1, y2 = 5\<rparr> \<le> 2
    \<and> 0 \<le> y1 \<lparr>x1 = 0, y1 = 3, x2 = 1, y2 = 5\<rparr>
    \<and> y1 \<lparr>x1 = 0, y1 = 3, x2 = 1, y2 = 5\<rparr> \<le> y2 \<lparr>x1 = 0, y1 = 3, x2 = 1, y2 = 5\<rparr>
    \<and> round_up (group_size D8) (y2 \<lparr>x1 = 0, y1 = 3, x2 = 1, y2 = 5\<rparr>) \<le> 8
    \<and> (0 :: int) < 8 \<and> (0 :: int) < 2
    \<and> (8 :: int) * int (bytes_pp D8) \<le> 8 \<and> (2 :: int) * 8 < 2 ^ 31
    \<and> stores_in_fb 8 1 8 2
          (rot_refresh pad32 D8 \<lparr>bitsPerPixel = 8, displayWidth = 8, virtualX = 8, virtualY = 2\<rparr>
             \<lparr>rotateC = 1, ShadowPitch = 4, ShadowPtr = word_of_int\<rparr>
             [\<lparr>x1 = 0, y1 = 3, x2 = 1, y2 = 5\<rparr>]) = Some True)
   \<and> ((2 :: int) = drop_bit 3 16 \<and> (0 :: int) < 2 \<and> (8 :: int) = pad32 (i32 (4 * 16))
    \<and> 0 \<le> x1 \<lparr>x1 = 1, y1 = 0, x2 = 3, y2 = 2\<rparr>
    \<and> x1 \<lparr>x1 = 1, y1 = 0, x2 = 3, y2 = 2\<rparr> \<le> x2 \<lparr>x1 = 1, y1 = 0, x2 = 3, y2 = 2\<rparr>
    \<and> x2 \<lparr>x1 = 1, y1 = 0, x2 = 3, y2 = 2\<rparr> \<le> 4
    \<and> 0 \<le> y1 \<lparr>x1 = 1, y1 = 0, x2 = 3, y2 = 2\<rparr>
    \<and> y1 \<lparr>x1 = 1, y1 = 0, x2 = 3, y2 = 2\<rparr> \<le> y2 \<lparr>x1 = 1, y1 = 0, x2 = 3, y2 = 2\<rparr>
    \<and> y2 \<lparr>x1 = 1, y1 = 0, x2 = 3, y2 = 2\<rparr> \<le> 2
    \<and> (0 :: int) < 2 \<and> (4 :: int) * 2 \<le> 8 \<and> (2 :: int) * 8 < 2 ^ 31
    \<and> stores_in_fb 8 2 4 2
          (cirRefreshArea pad32 \<lparr>bitsPerPixel = 16, displayWidth = 4, virtualX = 4, virtualY = 2\<rparr>
             \<lparr>rotateC = 0, ShadowPitch = 8, ShadowPtr = word_of_int\<rparr>
             [\<lparr>x1 = 1, y1 = 0, x2 = 3, y2 = 2\<rparr>]) = Some True)"
proof -
  have r: "round_up 4 5 = 8" by (simp add: round_up_def)
  have p: "pad32 (i32 64) = 8" by (simp add: pad32_def i32_def)
  have d: "drop_bit 3 (16 :: int) = 2" by (simp add: drop_bit_eq_div)
  from stores_within_frame_buffer
    [where pCir = "\<lparr>rotateC = 1, ShadowPitch = 4, ShadowPtr = word_of_int\<rparr>"
       and bs = "[\<lparr>x1 = 0, y1 = 3, x2 = 1, y2 = 5\<rparr>]" and d = D8 and BitmapBytePad = pad32
       and pScrn = "\<lparr>bitsPerPixel = 8, displayWidth = 8, virtualX = 8, virtualY = 2\<rparr>",
     THEN conjunct1]
  have 1: "stores_in_fb 8 1 8 2
          (rot_refresh pad32 D8 \<lparr>bitsPerPixel = 8, displayWidth = 8, virtualX = 8, virtualY = 2\<rparr>
             \<lparr>rotateC = 1, ShadowPitch = 4, ShadowPtr = word_of_int\<rparr>
             [\<lparr>x1 = 0, y1 = 3, x2 = 1, y2 = 5\<rparr>]) = Some True"
    by (simp add: r)
  from stores_within_frame_buffer
    [where pCir = "\<lparr>rotateC = 0, ShadowPitch = 8, ShadowPtr = word_of_int\<rparr>"
       and bs = "[\<lparr>x1 = 1, y1 = 0, x2 = 3, y2 = 2\<rparr>]" and Bpp = 2 and FBPitch = 8
       and BitmapBytePad = pad32
       and pScrn = "\<lparr>bitsPerPixel = 16, displayWidth = 4, virtualX = 4, virtualY = 2\<rparr>",
     THEN conjunct2]
  have 2: "stores_in_fb 8 2 4 2
          (cirRefreshArea pad32 \<lparr>bitsPerPixel = 16, displayWidth = 4, virtualX = 4, virtualY = 2\<rparr>
             \<lparr>rotateC = 0, ShadowPitch = 8, ShadowPtr = word_of_int\<rparr>
             [\<lparr>x1 = 1, y1 = 0, x2 = 3, y2 = 2\<rparr>]) = Some True"
    by (simp add: p d)
  show ?thesis
    using 1 2 by (simp add: r p d)
qed

text \<open>
  C2 as stated fails when the expanded row range passes the lower edge of the shadow
  buffer: with a shadow buffer of 6 rows at 8 bpp, the box of the rows \<open>4 \<le> y < 6\<close> is
  expanded to the rows \<open>4 \<le> y < 8\<close>, and the routine stores at the offsets \<open>-2\<close> and \<open>-1\<close>,
  in front of the frame buffer.  It also fails when the frame buffer reaches \<open>2^31\<close>
  bytes: at 8 bpp with a pitch of 1048576 bytes and 2049 rows, the box of the shadow
  column 2048 and the rows \<open>0 \<le> y < 4\<close> belongs to frame buffer row 2048, the product
  \<^verbatim>\<open>pbox->x1 * dstPitch\<close> is \<open>2^31\<close>, and the routine stores 2147483648 bytes in front of
  the frame buffer.
\<close>

theorem stores_within_frame_buffer_counterexample:
  "0 \<le> x1 \<lparr>x1 = 0, y1 = 4, x2 = 1, y2 = 6\<rparr>
   \<and> x1 \<lparr>x1 = 0, y1 = 4, x2 = 1, y2 = 6\<rparr> \<le> x2 \<lparr>x1 = 0, y1 = 4, x2 = 1, y2 = 6\<rparr>
   \<and> x2 \<lparr>x1 = 0, y1 = 4, x2 = 1, y2 = 6\<rparr>
       \<le> virtualY \<lparr>bitsPerPixel = 8, displayWidth = 8, virtualX = 6, virtualY = 1\<rparr>
   \<and> 0 \<le> y1 \<lparr>x1 = 0, y1 = 4, x2 = 1, y2 = 6\<rparr>
   \<and> y1 \<lparr>x1 = 0, y1 = 4, x2 = 1, y2 = 6\<rparr> \<le> y2 \<lparr>x1 = 0, y1 = 4, x2 = 1, y2 = 6\<rparr>
   \<and> y2 \<lparr>x1 = 0, y1 = 4, x2 = 1, y2 = 6\<rparr>
       \<le> virtualX \<lparr>bitsPerPixel = 8, displayWidth = 8, virtualX = 6, virtualY = 1\<rparr>
   \<and> map_option writes
         (cirRefreshArea8 \<lparr>bitsPerPixel = 8, displayWidth = 8, virtualX = 6, virtualY = 1\<rparr>
            \<lparr>rotateC = 1, ShadowPitch = 4, ShadowPtr = word_of_int\<rparr>
            [\<lparr>x1 = 0, y1 = 4, x2 = 1, y2 = 6\<rparr>])
       = Some [(- 2, 28), (- 1, 24), (0, 20), (1, 16)]
   \<and> stores_in_fb 8 1 6 1
         (cirRefreshArea8 \<lparr>bitsPerPixel = 8, displayWidth = 8, virtualX = 6, virtualY = 1\<rparr>
            \<lparr>rotateC = 1, ShadowPitch = 4, ShadowPtr = word_of_int\<rparr>
            [\<lparr>x1 = 0, y1 = 4, x2 = 1, y2 = 6\<rparr>])
       = Some False
   \<and> 0 \<le> x1 \<lparr>x1 = 2048, y1 = 0, x2 = 2049, y2 = 4\<rparr>
   \<and> x1 \<lparr>x1 = 2048, y1 = 0, x2 = 2049, y2 = 4\<rparr> \<le> x2 \<lparr>x1 = 2048, y1 = 0, x2 = 2049, y2 = 4\<rparr>
   \<and> x2 \<lparr>x1 = 2048, y1 = 0, x2 = 2049, y2 = 4\<rparr>
       \<le> virtualY \<lparr>bitsPerPixel = 8, displayWidth = 1048576, virtualX = 4, virtualY = 2049\<rparr>
   \<and> 0 \<le> y1 \<lparr>x1 = 2048, y1 = 0, x2 = 2049, y2 = 4\<rparr>
   \<and> y1 \<lparr>x1 = 2048, y1 = 0, x2 = 2049, y2 = 4\<rparr> \<le> y2 \<lparr>x1 = 2048, y1 = 0, x2 = 2049, y2 = 4\<rparr>
   \<and> round_up 4 (y2 \<lparr>x1 = 2048, y1 = 0, x2 = 2049, y2 = 4\<rparr>)
       \<le> virtualX \<lparr>bitsPerPixel = 8, displayWidth = 1048576, virtualX = 4, virtualY = 2049\<rparr>
   \<and> map_option writes
         (cirRefreshArea8 \<lparr>bitsPerPixel = 8, displayWidth = 1048576, virtualX = 4, virtualY = 2049\<rparr>
            \<lparr>rotateC = 1, ShadowPitch = 2052, ShadowPtr = word_of_int\<rparr>
            [\<lparr>x1 = 2048, y1 = 0, x2 = 2049, y2 = 4\<rparr>])
       = Some [(- 2147483648, 12), (- 2147483647, 8), (- 2147483646, 4), (- 2147483645, 0)]
   \<and> stores_in_fb 1048576 1 4 2049
         (cirRefreshArea8 \<lparr>bitsPerPixel = 8, displayWidth = 1048576, virtualX = 4, virtualY = 2049\<rparr>
            \<lparr>rotateC = 1, ShadowPitch = 2052, ShadowPtr = word_of_int\<rparr>
            [\<lparr>x1 = 2048, y1 = 0, x2 = 2049, y2 = 4\<rparr>])
       = Some False"
  by code_simp

section \<open>Rotate270 is Rotate90 followed by a point reflection\<close>

text \<open>
  C7 (as amended).  For every depth and every box inside the shadow buffer
  (\<open>0 \<le> x1 \<le> x2 \<le> virtualY\<close>, \<open>0 \<le> y1 \<le> y2\<close>) whose row range, expanded to the
  packing group, still ends inside the shadow buffer (\<open>round_up g y2 \<le> virtualX\<close>), the
  frame buffer produced by the Rotate270 blit is the point reflection through the centre of
  the frame buffer produced by the Rotate90 blit of the same box from the same shadow
  buffer, when the Rotate270 blit starts on the reflection of the frame buffer that the
  Rotate90 blit starts on.  This holds for a screen that is not empty, whose frame buffer
  pitch covers the visible width, whose shadow pitch is not negative and a multiple of the
  size of the source pointer's type (1 byte at 8 and 24 bpp, 2 at 16 bpp, 4 at 32 bpp), and
  whose frame buffer and shadow buffer are both smaller than \<open>2^31\<close> bytes
  (\<open>virtualY * pitch < 2^31\<close> and \<open>virtualX * ShadowPitch < 2^31\<close>).
\<close>

theorem rot270_is_reflected_rot90:
  assumes "0 \<le> x1 b" and "x1 b \<le> x2 b" and "x2 b \<le> virtualY pScrn"
    and "0 \<le> y1 b" and "y1 b \<le> y2 b"
    and "round_up (group_size d) (y2 b) \<le> virtualX pScrn"
    and "0 < virtualX pScrn" and "0 < virtualY pScrn"
    and "virtualX pScrn * int (bytes_pp d) \<le> fb_pitch BitmapBytePad d pScrn"
    and "virtualY pScrn * fb_pitch BitmapBytePad d pScrn < 2 ^ 31"
    and "src_unit d dvd SP" and "0 \<le> SP" and "virtualX pScrn * SP < 2 ^ 31"
  shows "\<exists>fb90.
      after (rot_box BitmapBytePad d pScrn \<lparr>rotateC = 1, ShadowPitch = SP, ShadowPtr = m\<rparr> b) fb
        = Some fb90
    \<and> after (rot_box BitmapBytePad d pScrn \<lparr>rotateC = - 1, ShadowPitch = SP, ShadowPtr = m\<rparr> b)
          (reflect (fb_pitch BitmapBytePad d pScrn) (bytes_pp d) (virtualX pScrn) (virtualY pScrn)
             fb)
        = Some (reflect (fb_pitch BitmapBytePad d pScrn) (bytes_pp d) (virtualX pScrn)
                  (virtualY pScrn) fb90)"
proof -
  let ?c90 = "\<lparr>rotateC = 1, ShadowPitch = SP, ShadowPtr = m\<rparr>"
  let ?c270 = "\<lparr>rotateC = - 1, ShadowPitch = SP, ShadowPtr = m\<rparr>"
  let ?P = "fb_pitch BitmapBytePad d pScrn" and ?V = "virtualX pScrn" and ?H = "virtualY pScrn"
  let ?Y1 = "round_down (group_size d) (y1 b)" and ?Y2 = "round_up (group_size d) (y2 b)"
  have Y1: "0 \<le> ?Y1"
    using group_pos assms(4) by (rule round_down_nonneg)
  have y2V: "y2 b \<le> ?V"
    using round_up_ge [OF group_pos, of "y2 b" d] assms(6) by linarith
  have "map_option writes (rot_box BitmapBytePad d pScrn ?c90 b) =
      Some (rot90_copy m (bytes_pp d) ?P SP ?V (x1 b) (x2 b) ?Y1 ?Y2)"
    using rot90_box_writes [of ?c90 b pScrn d BitmapBytePad] assms by simp
  from map_option_SomeD [OF this]
  obtain t90 where t90: "rot_box BitmapBytePad d pScrn ?c90 b = Some t90"
    and w90: "writes t90 = rot90_copy m (bytes_pp d) ?P SP ?V (x1 b) (x2 b) ?Y1 ?Y2"
    by (elim exE conjE)
  have "map_option writes (rot_box BitmapBytePad d pScrn ?c270 b) =
      Some (rot270_copy m (bytes_pp d) ?P SP ?H (x1 b) (x2 b) ?Y1 ?Y2)"
    using rot270_box_writes [of ?c270 b pScrn d BitmapBytePad] assms y2V by simp
  from map_option_SomeD [OF this]
  obtain t270 where t270: "rot_box BitmapBytePad d pScrn ?c270 b = Some t270"
    and w270: "writes t270 = rot270_copy m (bytes_pp d) ?P SP ?H (x1 b) (x2 b) ?Y1 ?Y2"
    by (elim exE conjE)
  have "run t270 (reflect ?P (bytes_pp d) ?V ?H fb) =
      reflect ?P (bytes_pp d) ?V ?H (run t90 fb)"
    unfolding run_store_all w90 w270
    by (rule rot270_reflects_rot90 [OF bytes_pp_pos assms(7,9,1,3) Y1 assms(6)])
  then show ?thesis
    by (simp add: after_def t90 t270)
qed

theorem rot270_is_reflected_rot90_witness:
  "0 \<le> x1 \<lparr>x1 = 0, y1 = 3, x2 = 2, y2 = 5\<rparr>
   \<and> x1 \<lparr>x1 = 0, y1 = 3, x2 = 2, y2 = 5\<rparr> \<le> x2 \<lparr>x1 = 0, y1 = 3, x2 = 2, y2 = 5\<rparr>
   \<and> x2 \<lparr>x1 = 0, y1 = 3, x2 = 2, y2 = 5\<rparr> \<le> 2
   \<and> 0 \<le> y1 \<lparr>x1 = 0, y1 = 3, x2 = 2, y2 = 5\<rparr>
   \<and> y1 \<lparr>x1 = 0, y1 = 3, x2 = 2, y2 = 5\<rparr> \<le> y2 \<lparr>x1 = 0, y1 = 3, x2 = 2, y2 = 5\<rparr>
   \<and> round_up (group_size D8) (y2 \<lparr>x1 = 0, y1 = 3, x2 = 2, y2 = 5\<rparr>) \<le> 8
   \<and> (0 :: int) < 8 \<and> (0 :: int) < 2 \<and> (8 :: int) * int (bytes_pp D8) \<le> 8
   \<and> (2 :: int) * 8 < 2 ^ 31
   \<and> src_unit D8 dvd (2 :: int) \<and> (0 :: int) \<le> 2 \<and> (8 :: int) * 2 < 2 ^ 31
   \<and> (\<exists>fb90.
        after (rot_box pad32 D8 \<lparr>bitsPerPixel = 8, displayWidth = 8, virtualX = 8, virtualY = 2\<rparr>
                 \<lparr>rotateC = 1, ShadowPitch = 2, ShadowPtr = word_of_int\<rparr>
                 \<lparr>x1 = 0, y1 = 3, x2 = 2, y2 = 5\<rparr>) blank = Some fb90
      \<and> after (rot_box pad32 D8 \<lparr>bitsPerPixel = 8, displayWidth = 8, virtualX = 8, virtualY = 2\<rparr>
                 \<lparr>rotateC = - 1, ShadowPitch = 2, ShadowPtr = word_of_int\<rparr>
                 \<lparr>x1 = 0, y1 = 3, x2 = 2, y2 = 5\<rparr>) (reflect 8 1 8 2 blank)
          = Some (reflect 8 1 8 2 fb90))"
proof -
  let ?b = "\<lparr>x1 = 0, y1 = 3, x2 = 2, y2 = 5\<rparr>"
  let ?scrn = "\<lparr>bitsPerPixel = 8, displayWidth = 8, virtualX = 8, virtualY = 2\<rparr>"
  have h: "0 \<le> x1 ?b" "x1 ?b \<le> x2 ?b" "x2 ?b \<le> virtualY ?scrn" "0 \<le> y1 ?b" "y1 ?b \<le> y2 ?b"
    "round_up (group_size D8) (y2 ?b) \<le> virtualX ?scrn" "0 < virtualX ?scrn"
    "0 < virtualY ?scrn"
    "virtualX ?scrn * int (bytes_pp D8) \<le> fb_pitch pad32 D8 ?scrn"
    "virtualY ?scrn * fb_pitch pad32 D8 ?scrn < 2 ^ 31"
    "src_unit D8 dvd (2 :: int)" "(0 :: int) \<le> 2" "virtualX ?scrn * 2 < 2 ^ 31"
    by (simp_all add: round_up_def)
  from rot270_is_reflected_rot90 [where BitmapBytePad = pad32 and m = word_of_int and fb = blank,
      OF h]
  have "\<exists>fb90.
        after (rot_box pad32 D8 ?scrn \<lparr>rotateC = 1, ShadowPitch = 2, ShadowPtr = word_of_int\<rparr> ?b)
          blank = Some fb90
      \<and> after (rot_box pad32 D8 ?scrn \<lparr>rotateC = - 1, ShadowPitch = 2, ShadowPtr = word_of_int\<rparr>
                 ?b) (reflect 8 1 8 2 blank)
          = Some (reflect 8 1 8 2 fb90)"
    by simp
  with h show ?thesis
    by simp
qed

text \<open>
  C7 as stated fails for a box inside the shadow buffer whose expanded rows pass the last
  shadow row: at 8 bpp with a 2 by 2 shadow buffer and the whole buffer as the box, byte 2
  of the frame buffer after Rotate270 is 0, the shadow pixel of column 0 and row 0, while
  the reflection of the frame buffer after Rotate90 has 5 there, a byte from beyond the
  shadow rows, which the stores of the next frame buffer row have put over the pixel.

  It fails for a frame buffer of \<open>2^31\<close> bytes or more: at 8 bpp with a pitch of 1048576
  bytes and 2049 rows, for the box of shadow column 2048 and the rows \<open>0 \<le> y < 4\<close>, the
  product \<^verbatim>\<open>pbox->x1 * dstPitch\<close> of the Rotate90 blit wraps and its stores miss the frame
  buffer, so that byte 1 of the reflection is still 0, while Rotate270 has stored the
  shadow byte 4 there.

  And it fails for a shadow pitch that is not a multiple of the source pointer's unit: at
  16 bpp with a pitch of 5 bytes the two blits take the pitch in 16-bit units as
  \<open>-5 >> 1 = -3\<close> and \<open>5 >> 1 = 2\<close> and read different bytes for the same pixel; byte 2 is
  4 after Rotate270 and 6 in the reflection of Rotate90.
\<close>

theorem rot270_is_reflected_rot90_counterexample:
  "x2 \<lparr>x1 = 0, y1 = 0, x2 = 2, y2 = 2\<rparr>
      \<le> virtualY \<lparr>bitsPerPixel = 8, displayWidth = 2, virtualX = 2, virtualY = 2\<rparr>
   \<and> y2 \<lparr>x1 = 0, y1 = 0, x2 = 2, y2 = 2\<rparr>
      \<le> virtualX \<lparr>bitsPerPixel = 8, displayWidth = 2, virtualX = 2, virtualY = 2\<rparr>
   \<and> byte_at
        (after (rot_box pad32 D8 \<lparr>bitsPerPixel = 8, displayWidth = 2, virtualX = 2, virtualY = 2\<rparr>
                  \<lparr>rotateC = - 1, ShadowPitch = 2, ShadowPtr = word_of_int\<rparr>
                  \<lparr>x1 = 0, y1 = 0, x2 = 2, y2 = 2\<rparr>) (reflect 2 1 2 2 blank)) 2 = Some 0
   \<and> byte_at
        (map_option (reflect 2 1 2 2)
           (after (rot_box pad32 D8 \<lparr>bitsPerPixel = 8, displayWidth = 2, virtualX = 2, virtualY = 2\<rparr>
                     \<lparr>rotateC = 1, ShadowPitch = 2, ShadowPtr = word_of_int\<rparr>
                     \<lparr>x1 = 0, y1 = 0, x2 = 2, y2 = 2\<rparr>) blank)) 2 = Some 5
   \<and> x2 \<lparr>x1 = 2048, y1 = 0, x2 = 2049, y2 = 4\<rparr>
      \<le> virtualY \<lparr>bitsPerPixel = 8, displayWidth = 1048576, virtualX = 4, virtualY = 2049\<rparr>
   \<and> round_up 4 (y2 \<lparr>x1 = 2048, y1 = 0, x2 = 2049, y2 = 4\<rparr>)
      \<le> virtualX \<lparr>bitsPerPixel = 8, displayWidth = 1048576, virtualX = 4, virtualY = 2049\<rparr>
   \<and> byte_at
        (after (rot_box pad32 D8 \<lparr>bitsPerPixel = 8, displayWidth = 1048576, virtualX = 4, virtualY = 2049\<rparr>
                  \<lparr>rotateC = - 1, ShadowPitch = 2052, ShadowPtr = word_of_int\<rparr>
                  \<lparr>x1 = 2048, y1 = 0, x2 = 2049, y2 = 4\<rparr>) (reflect 1048576 1 4 2049 blank)) 1 = Some 4
   \<and> byte_at
        (map_option (reflect 1048576 1 4 2049)
           (after (rot_box pad32 D8 \<lparr>bitsPerPixel = 8, displayWidth = 1048576, virtualX = 4, virtualY = 2049\<rparr>
                     \<lparr>rotateC = 1, ShadowPitch = 2052, ShadowPtr = word_of_int\<rparr>
                     \<lparr>x1 = 2048, y1 = 0, x2 = 2049, y2 = 4\<rparr>) blank)) 1 = Some 0
   \<and> x2 \<lparr>x1 = 0, y1 = 0, x2 = 1, y2 = 2\<rparr>
      \<le> virtualY \<lparr>bitsPerPixel = 16, displayWidth = 2, virtualX = 2, virtualY = 1\<rparr>
   \<and> round_up 2 (y2 \<lparr>x1 = 0, y1 = 0, x2 = 1, y2 = 2\<rparr>)
      \<le> virtualX \<lparr>bitsPerPixel = 16, displayWidth = 2, virtualX = 2, virtualY = 1\<rparr>
   \<and> byte_at
        (after (rot_box pad32 D16 \<lparr>bitsPerPixel = 16, displayWidth = 2, virtualX = 2, virtualY = 1\<rparr>
                  \<lparr>rotateC = - 1, ShadowPitch = 5, ShadowPtr = word_of_int\<rparr>
                  \<lparr>x1 = 0, y1 = 0, x2 = 1, y2 = 2\<rparr>) (reflect 4 2 2 1 blank)) 2 = Some 4
   \<and> byte_at
        (map_option (reflect 4 2 2 1)
           (after (rot_box pad32 D16 \<lparr>bitsPerPixel = 16, displayWidth = 2, virtualX = 2, virtualY = 1\<rparr>
                     \<lparr>rotateC = 1, ShadowPitch = 5, ShadowPtr = word_of_int\<rparr>
                     \<lparr>x1 = 0, y1 = 0, x2 = 1, y2 = 2\<rparr>) blank)) 2 = Some 6"
  by code_simp

section \<open>The rotation round trip\<close>

text \<open>
  C1 (as amended).  For each depth, the Rotate90 blit of the whole shadow buffer followed
  by the inverse rotation (the Rotate270 blit of the whole rotated buffer into a buffer with
  the dimensions of the shadow buffer) returns, for every pixel of the shadow buffer and
  every byte of the pixel, the original byte: the two blits together are the identity on
  pixel positions, and no pixel value is changed.  This holds when the height of the shadow
  buffer (\<open>virtualX\<close> rows) is a multiple of the packing group size (4 at 8 and 24 bpp, 2
  at 16 bpp, 1 at 32 bpp); its width need not be.  The buffers are as the data model has
  them: not empty, each frame buffer pitch covering its visible width, the shadow pitch not
  negative and a multiple of the size of the source pointer's type (1 byte at 8 and 24
  bpp, 2 at 16 bpp, 4 at 32 bpp), and the shadow buffer and the rotated frame buffer each
  smaller than \<open>2^31\<close> bytes (rows times pitch).  Nothing is asked of the size of the
  buffer that the inverse rotation fills.
\<close>

theorem rotation_round_trip:
  assumes g: "group_size d dvd virtualX pScrn"
    and pos: "0 < virtualX pScrn" "0 < virtualY pScrn"
    and tr: "virtualX pScrn' = virtualY pScrn" "virtualY pScrn' = virtualX pScrn"
    and P1: "virtualX pScrn * int (bytes_pp d) \<le> fb_pitch BitmapBytePad d pScrn"
    and P2: "virtualX pScrn' * int (bytes_pp d) \<le> fb_pitch BitmapBytePad d pScrn'"
    and sz1: "virtualY pScrn * fb_pitch BitmapBytePad d pScrn < 2 ^ 31"
    and dv: "src_unit d dvd SP"
    and sp: "0 \<le> SP" "virtualX pScrn * SP < 2 ^ 31"
  shows "\<exists>fb2. round_trip BitmapBytePad d pScrn pScrn' SP shadow fb fb' = Some fb2
     \<and> (\<forall>x y b. 0 \<le> x \<and> x < virtualY pScrn \<and> 0 \<le> y \<and> y < virtualX pScrn \<and> b < bytes_pp d
           \<longrightarrow> fb2 (pixel_addr (fb_pitch BitmapBytePad d pScrn') (bytes_pp d) y x b)
               = shadow (pixel_addr SP (bytes_pp d) y x b))"
proof -
  let ?Bpp = "bytes_pp d" and ?V = "virtualX pScrn" and ?W = "virtualY pScrn"
  let ?P1 = "fb_pitch BitmapBytePad d pScrn" and ?P2 = "fb_pitch BitmapBytePad d pScrn'"
  let ?c1 = "\<lparr>rotateC = 1, ShadowPitch = SP, ShadowPtr = shadow\<rparr>"
  let ?b1 = "\<lparr>x1 = 0, y1 = 0, x2 = ?W, y2 = ?V\<rparr>"
  let ?b2 = "\<lparr>x1 = 0, y1 = 0, x2 = ?V, y2 = ?W\<rparr>"
  let ?W' = "round_up (group_size d) ?W"
  have r0: "round_down (group_size d) 0 = 0"
    by (simp add: round_down_def)
  have rV: "round_up (group_size d) ?V = ?V"
    using round_dvd(1) [OF group_pos] g by blast
  have WW': "?W \<le> ?W'"
    by (rule round_up_ge [OF group_pos])
  note f1 = fb_sizes [OF bytes_pp_pos pos P1 sz1]
  have "map_option writes (rot_box BitmapBytePad d pScrn ?c1 ?b1) =
      Some (rot90_copy shadow ?Bpp ?P1 SP ?V 0 ?W 0 ?V)"
    using rot90_box_writes [of ?c1 ?b1 pScrn d BitmapBytePad] pos P1 sz1 dv sp
    by (simp add: r0 rV)
  from map_option_SomeD [OF this]
  obtain t1 where t1: "rot_box BitmapBytePad d pScrn ?c1 ?b1 = Some t1"
    and w1: "writes t1 = rot90_copy shadow ?Bpp ?P1 SP ?V 0 ?W 0 ?V"
    by (elim exE conjE)
  let ?fb1 = "run t1 fb"
  let ?c2 = "\<lparr>rotateC = - 1, ShadowPitch = ?P1, ShadowPtr = ?fb1\<rparr>"
  have P2': "?W * int ?Bpp \<le> ?P2" using P2 tr by simp
  have P20: "0 \<le> ?P2"
  proof -
    have "0 \<le> ?W * int ?Bpp" using pos(2) by simp
    then show ?thesis using P2' by linarith
  qed
  have "map_option writes (rot_box BitmapBytePad d pScrn' ?c2 ?b2) =
      Some (rot270_copy ?fb1 ?Bpp ?P2 ?P1 ?V 0 ?V 0 ?W')"
    using rot_box_writes_270 [where pCir = ?c2 and pbox = ?b2 and pScrn = pScrn' and d = d
        and BitmapBytePad = BitmapBytePad] pos P20 f1(1,2,4)
      src_unit_dvd_fb_pitch [of d BitmapBytePad pScrn]
    by (simp add: r0 tr)
  from map_option_SomeD [OF this]
  obtain t2 where t2: "rot_box BitmapBytePad d pScrn' ?c2 ?b2 = Some t2"
    and w2: "writes t2 = rot270_copy ?fb1 ?Bpp ?P2 ?P1 ?V 0 ?V 0 ?W'"
    by (elim exE conjE)
  have px: "run t2 fb' (pixel_addr ?P2 ?Bpp y x b) = shadow (pixel_addr SP ?Bpp y x b)"
    if x: "0 \<le> x" "x < ?W" and y: "0 \<le> y" "y < ?V" and b: "b < ?Bpp" for x y b
  proof -
    have c: "0 \<le> ?V - 1 - y" "?V - 1 - y < ?V" using y by linarith+
    have "(x + 1) * int ?Bpp \<le> ?W * int ?Bpp"
      using x by (intro mult_right_mono) simp_all
    then have u: "(x - 0) * int ?Bpp + int b < ?P2"
      using b P2' by (simp add: algebra_simps)
    have r: "?V - ?V \<le> y" "y < ?V - 0" using y by simp_all
    have xW': "x < ?W'" using x(2) WW' by linarith
    have "run t2 fb' (pixel_addr ?P2 ?Bpp y x b) = ?fb1 (pixel_addr ?P1 ?Bpp x (?V - 1 - y) b)"
      unfolding run_store_all [of t2] w2
      by (rule rot270_at_last [OF order_refl r x(1) xW' b u])
    also have "\<dots> = shadow (pixel_addr SP ?Bpp (?V - 1 - (?V - 1 - y)) x b)"
      unfolding run_store_all [of t1] w1
        rot90_at [OF bytes_pp_pos P1 order_refl order_refl c b]
      using x y by simp
    finally show ?thesis by simp
  qed
  have "round_trip BitmapBytePad d pScrn pScrn' SP shadow fb fb' = Some (run t2 fb')"
    by (simp add: round_trip_def after_def t1 t2)
  with px show ?thesis by blast
qed

theorem rotation_round_trip_witness:
  "group_size D8 dvd (4 :: int) \<and> (0 :: int) < 4 \<and> (0 :: int) < 2
   \<and> virtualX \<lparr>bitsPerPixel = 8, displayWidth = 2, virtualX = 2, virtualY = 4\<rparr>
        = virtualY \<lparr>bitsPerPixel = 8, displayWidth = 4, virtualX = 4, virtualY = 2\<rparr>
   \<and> virtualY \<lparr>bitsPerPixel = 8, displayWidth = 2, virtualX = 2, virtualY = 4\<rparr>
        = virtualX \<lparr>bitsPerPixel = 8, displayWidth = 4, virtualX = 4, virtualY = 2\<rparr>
   \<and> (4 :: int) * int (bytes_pp D8)
        \<le> fb_pitch pad32 D8 \<lparr>bitsPerPixel = 8, displayWidth = 4, virtualX = 4, virtualY = 2\<rparr>
   \<and> (2 :: int) * int (bytes_pp D8)
        \<le> fb_pitch pad32 D8 \<lparr>bitsPerPixel = 8, displayWidth = 2, virtualX = 2, virtualY = 4\<rparr>
   \<and> (2 :: int)
        * fb_pitch pad32 D8 \<lparr>bitsPerPixel = 8, displayWidth = 4, virtualX = 4, virtualY = 2\<rparr>
        < 2 ^ 31
   \<and> src_unit D8 dvd (2 :: int) \<and> (0 :: int) \<le> 2 \<and> (4 :: int) * 2 < 2 ^ 31
   \<and> (\<exists>fb2. round_trip pad32 D8
                \<lparr>bitsPerPixel = 8, displayWidth = 4, virtualX = 4, virtualY = 2\<rparr>
                \<lparr>bitsPerPixel = 8, displayWidth = 2, virtualX = 2, virtualY = 4\<rparr>
                2 word_of_int blank blank = Some fb2
        \<and> (\<forall>x y b. 0 \<le> x \<and> x < 2 \<and> 0 \<le> y \<and> y < 4 \<and> b < 1
              \<longrightarrow> fb2 (pixel_addr 2 1 y x b) = word_of_int (pixel_addr 2 1 y x b)))"
proof -
  let ?scrn = "\<lparr>bitsPerPixel = 8, displayWidth = 4, virtualX = 4, virtualY = 2\<rparr>"
  let ?scrn' = "\<lparr>bitsPerPixel = 8, displayWidth = 2, virtualX = 2, virtualY = 4\<rparr>"
  have h: "group_size D8 dvd virtualX ?scrn" "0 < virtualX ?scrn" "0 < virtualY ?scrn"
    "virtualX ?scrn' = virtualY ?scrn" "virtualY ?scrn' = virtualX ?scrn"
    "virtualX ?scrn * int (bytes_pp D8) \<le> fb_pitch pad32 D8 ?scrn"
    "virtualX ?scrn' * int (bytes_pp D8) \<le> fb_pitch pad32 D8 ?scrn'"
    "virtualY ?scrn * fb_pitch pad32 D8 ?scrn < 2 ^ 31"
    "src_unit D8 dvd (2 :: int)" "(0 :: int) \<le> 2" "virtualX ?scrn * 2 < 2 ^ 31"
    by simp_all
  from rotation_round_trip [where BitmapBytePad = pad32 and shadow = word_of_int
      and fb = blank and fb' = blank, OF h]
  have "\<exists>fb2. round_trip pad32 D8 ?scrn ?scrn' 2 word_of_int blank blank = Some fb2
        \<and> (\<forall>x y b. 0 \<le> x \<and> x < 2 \<and> 0 \<le> y \<and> y < 4 \<and> b < 1
              \<longrightarrow> fb2 (pixel_addr 2 1 y x b) = word_of_int (pixel_addr 2 1 y x b))"
    by simp
  then show ?thesis
    by simp
qed

text \<open>
  C1 as stated, for every buffer, fails when the height of the shadow buffer is not a
  multiple of the packing group size: at 8 bpp with a 2 by 2 shadow buffer whose byte 0 is
  0, the round trip returns 5 at byte 0.  The Rotate90 blit has already lost the pixel:
  byte 1 of the rotated buffer, the place of shadow pixel column 0, row 0, holds 5, a byte
  from beyond the shadow rows.

  It fails as well for a shadow pitch that is not a multiple of the source pointer's unit:
  at 16 bpp with a shadow buffer one pixel wide and two rows high whose pitch is 5 bytes,
  the pixel of row 1 starts at shadow byte 5, and the round trip returns at its place (byte
  2 of the result) the shadow byte 6.

  And it fails for a shadow buffer of \<open>2^31\<close> bytes or more: at 8 bpp with a shadow buffer
  one pixel wide and four rows high whose pitch is \<open>2^30\<close> bytes, the pixel of row 3 lies
  at shadow byte 3221225472 and holds 7; the product \<^verbatim>\<open>(1 - y2) * srcPitch\<close> wraps, the
  Rotate90 blit reads in front of the shadow buffer, and the round trip returns 0 at the
  place of the pixel (byte 3 of the result).
\<close>

theorem rotation_round_trip_counterexample:
  "byte_at
     (round_trip pad32 D8 \<lparr>bitsPerPixel = 8, displayWidth = 2, virtualX = 2, virtualY = 2\<rparr>
        \<lparr>bitsPerPixel = 8, displayWidth = 2, virtualX = 2, virtualY = 2\<rparr>
        2 word_of_int blank blank) 0 = Some 5
   \<and> (word_of_int 0 :: 8 word) = 0
   \<and> byte_at
     (after (rot_box pad32 D8 \<lparr>bitsPerPixel = 8, displayWidth = 2, virtualX = 2, virtualY = 2\<rparr>
               \<lparr>rotateC = 1, ShadowPitch = 2, ShadowPtr = word_of_int\<rparr>
               \<lparr>x1 = 0, y1 = 0, x2 = 2, y2 = 2\<rparr>) blank) 1 = Some 5
   \<and> byte_at
     (round_trip pad32 D16 \<lparr>bitsPerPixel = 16, displayWidth = 2, virtualX = 2, virtualY = 1\<rparr>
        \<lparr>bitsPerPixel = 16, displayWidth = 1, virtualX = 1, virtualY = 2\<rparr>
        5 word_of_int blank blank) (pixel_addr 2 2 1 0 0) = Some 6
   \<and> pixel_addr 2 2 1 0 0 = 2 \<and> pixel_addr 5 2 1 0 0 = 5
   \<and> (word_of_int (pixel_addr 5 2 1 0 0) :: 8 word) = 5
   \<and> byte_at
     (round_trip pad32 D8 \<lparr>bitsPerPixel = 8, displayWidth = 4, virtualX = 4, virtualY = 1\<rparr>
        \<lparr>bitsPerPixel = 8, displayWidth = 1, virtualX = 1, virtualY = 4\<rparr>
        1073741824 (\<lambda>a. if a = 3221225472 then 7 else 0) blank blank)
       (pixel_addr 1 1 3 0 0) = Some 0
   \<and> pixel_addr 1 1 3 0 0 = 3 \<and> pixel_addr 1073741824 1 3 0 0 = 3221225472
   \<and> (\<lambda>a. if a = 3221225472 then 7 else 0 :: 8 word) (pixel_addr 1073741824 1 3 0 0) = 7"
  by code_simp


end
